theory Spec2Isabelle
  imports Complex_Main "HOL-Library.Multiset"
begin

section \<open>The rover power manager (power\_manager.cpp)\<close>

text \<open>
  The C++ type \<open>float\<close> is modelled by \<^typ>\<open>real\<close>: sums, differences, products and
  comparisons are the exact ones, so rounding, infinities and NaN are outside the model.
  The ROS node is modelled as a record holding the three data members the logic uses and
  the sequence of messages and log lines it has emitted; the clock member
  \<open>last_prediction_time_\<close> only feeds an unused local and is left out.
\<close>

subsection \<open>Data model\<close>

datatype PowerMode = NORMAL | LOW_POWER | HIBERNATION | EMERGENCY

record 'f EnergyState =
  battery_soc :: 'f
  voltage :: 'f
  current :: 'f
  power_consumption :: 'f
  solar_generation :: 'f
  temperature :: 'f
  mode :: PowerMode

datatype ComponentPriority = CRITICAL | HIGH | MEDIUM | LOW

text \<open>The enumerators' values; \<open>a->priority < b->priority\<close> compares them.\<close>

fun priority_value :: "ComponentPriority \<Rightarrow> nat" where
  "priority_value CRITICAL = 0"
| "priority_value HIGH = 1"
| "priority_value MEDIUM = 2"
| "priority_value LOW = 3"

record 'f PowerComponent =
  name :: string
  priority :: ComponentPriority
  nominal_power :: 'f
  current_power :: 'f
  is_enabled :: bool
  is_essential :: bool

text \<open>What the node sends out: the three publishers and the two log lines.\<close>

datatype 'f emission =
    ModePublished string
  | SocPublished 'f
  | BudgetPublished 'f
  | SwitchLogged string string
  | PredictionLogged 'f 'f string

record 'f PowerManager =
  current_mode :: PowerMode
  energy_state :: "'f EnergyState"
  components :: "'f PowerComponent list"
  emitted :: "'f emission list"

subsection \<open>Construction\<close>

definition mk_component ::
  "string \<Rightarrow> ComponentPriority \<Rightarrow> 'f \<Rightarrow> 'f \<Rightarrow> bool \<Rightarrow> bool \<Rightarrow> 'f PowerComponent" where
  "mk_component n p nom cur en ess =
     \<lparr>name = n, priority = p, nominal_power = nom, current_power = cur,
      is_enabled = en, is_essential = ess\<rparr>"

definition initializeComponents :: "real PowerComponent list" where
  "initializeComponents =
    [mk_component ''communication'' CRITICAL 15 15 True True,
     mk_component ''fdir_watchdog'' CRITICAL 5 5 True True,
     mk_component ''navigation'' HIGH 25 25 True True,
     mk_component ''motors'' HIGH 50 0 True True,
     mk_component ''lidar'' MEDIUM 20 20 True False,
     mk_component ''cameras'' MEDIUM 15 15 True False,
     mk_component ''science_instruments'' LOW 30 0 True False,
     mk_component ''heating'' MEDIUM 40 0 True False]"

definition initial_energy_state :: "real EnergyState" where
  "initial_energy_state =
     \<lparr>battery_soc = 100, voltage = 28, current = 0, power_consumption = 0,
      solar_generation = 0, temperature = 20, mode = NORMAL\<rparr>"

definition initial_manager :: "real PowerManager" where
  "initial_manager =
     \<lparr>current_mode = NORMAL, energy_state = initial_energy_state,
      components = initializeComponents, emitted = []\<rparr>"

subsection \<open>Public queries and mode names\<close>

fun powerModeToString :: "PowerMode \<Rightarrow> string" where
  "powerModeToString NORMAL = ''NORMAL''"
| "powerModeToString LOW_POWER = ''LOW_POWER''"
| "powerModeToString HIBERNATION = ''HIBERNATION''"
| "powerModeToString EMERGENCY = ''EMERGENCY''"

definition getCurrentMode :: "'f PowerManager \<Rightarrow> PowerMode" where
  "getCurrentMode s = current_mode s"

definition getEnergyState :: "'f PowerManager \<Rightarrow> 'f EnergyState" where
  "getEnergyState s = energy_state s"

text \<open>The loop of \<open>getCriticalPowerConsumption\<close>, with its accumulator.\<close>

fun critical_power_loop :: "real PowerComponent list \<Rightarrow> real \<Rightarrow> real" where
  "critical_power_loop [] critical_power = critical_power"
| "critical_power_loop (cmp # rest) critical_power =
     critical_power_loop rest
       (if is_enabled cmp \<and> priority cmp = CRITICAL
        then critical_power + current_power cmp else critical_power)"

definition getCriticalPowerConsumption :: "real PowerManager \<Rightarrow> real" where
  "getCriticalPowerConsumption s = critical_power_loop (components s) 0"

text \<open>\<open>std::max(a, b)\<close> is \<open>(a < b) ? b : a\<close>.\<close>

definition std_max :: "real \<Rightarrow> real \<Rightarrow> real" where
  "std_max a b = (if a < b then b else a)"

definition getAvailablePower :: "real PowerManager \<Rightarrow> real" where
  "getAvailablePower s =
     (let net_power = solar_generation (energy_state s) - getCriticalPowerConsumption s
      in std_max 0 net_power)"

subsection \<open>Telemetry callbacks\<close>

text \<open>\<open>std::clamp(v, lo, hi)\<close> is \<open>(v < lo) ? lo : (hi < v) ? hi : v\<close>.\<close>

definition std_clamp :: "real \<Rightarrow> real \<Rightarrow> real \<Rightarrow> real" where
  "std_clamp v lo hi = (if v < lo then lo else if hi < v then hi else v)"

definition batteryCallback :: "real \<Rightarrow> real PowerManager \<Rightarrow> real PowerManager" where
  "batteryCallback data s =
     (let es1 = (energy_state s)\<lparr>voltage := data\<rparr>;
          es2 = es1\<lparr>battery_soc := ((data - 24) / 5.4) * 100\<rparr>;
          es3 = es2\<lparr>battery_soc := std_clamp (battery_soc es2) 0 100\<rparr>
      in s\<lparr>energy_state := es3, emitted := emitted s @ [SocPublished (battery_soc es3)]\<rparr>)"

definition solarCallback :: "'f \<Rightarrow> 'f PowerManager \<Rightarrow> 'f PowerManager" where
  "solarCallback data s =
     s\<lparr>energy_state := (energy_state s)\<lparr>solar_generation := data\<rparr>\<rparr>"

text \<open>The loop of \<open>velocityCallback\<close>: the first component named motors is written, then \<open>break\<close>.\<close>

fun set_motor_power :: "'f \<Rightarrow> 'f PowerComponent list \<Rightarrow> 'f PowerComponent list" where
  "set_motor_power motor_power [] = []"
| "set_motor_power motor_power (cmp # rest) =
     (if name cmp = ''motors''
      then cmp\<lparr>current_power := motor_power\<rparr> # rest
      else cmp # set_motor_power motor_power rest)"

definition velocityCallback :: "real \<Rightarrow> real \<Rightarrow> real PowerManager \<Rightarrow> real PowerManager" where
  "velocityCallback linear_x angular_z s =
     (let speed = \<bar>linear_x\<bar>;
          angular = \<bar>angular_z\<bar>;
          motor_power = 10 + 40 * speed + 20 * angular
      in s\<lparr>components := set_motor_power motor_power (components s)\<rparr>)"

subsection \<open>Mode decision and mode switch\<close>

fun consumption_loop :: "real PowerComponent list \<Rightarrow> real \<Rightarrow> real" where
  "consumption_loop [] total_acc = total_acc"
| "consumption_loop (cmp # rest) total_acc =
     consumption_loop rest (if is_enabled cmp then total_acc + current_power cmp else total_acc)"

definition updatePowerConsumption :: "real PowerManager \<Rightarrow> real PowerManager" where
  "updatePowerConsumption s =
     s\<lparr>energy_state :=
         (energy_state s)\<lparr>power_consumption := consumption_loop (components s) 0\<rparr>\<rparr>"

text \<open>
  \<open>determineTargetMode\<close> reads two members (\<open>energy_state_.solar_generation\<close> and
  \<open>current_mode_\<close>) besides its two arguments.
\<close>

definition determineTargetMode :: "real PowerManager \<Rightarrow> real \<Rightarrow> real \<Rightarrow> PowerMode" where
  "determineTargetMode s soc power_balance =
     (if soc < 15 then EMERGENCY
      else if solar_generation (energy_state s) < 5 \<and> soc < 50 then HIBERNATION
      else if soc < 30 \<or> power_balance < - 10 then LOW_POWER
      else if soc > 40 \<and> power_balance > 0 then NORMAL
      else current_mode s)"

text \<open>
  The call \<open>managementLoop\<close> makes: the state of charge and the balance
  \<open>solar_generation - power_consumption\<close> of the energy state are the arguments.
\<close>

definition decideMode :: "real PowerManager \<Rightarrow> PowerMode" where
  "decideMode s =
     (let power_balance = solar_generation (energy_state s) - power_consumption (energy_state s)
      in determineTargetMode s (battery_soc (energy_state s)) power_balance)"

text \<open>The body of each \<open>for\<close> loop of \<open>adjustComponentsForMode\<close>, one per \<open>case\<close>.\<close>

fun adjust_component :: "PowerMode \<Rightarrow> 'f PowerComponent \<Rightarrow> 'f PowerComponent" where
  "adjust_component NORMAL cmp = cmp\<lparr>is_enabled := True\<rparr>"
| "adjust_component LOW_POWER cmp =
     (let c1 = (if priority cmp = LOW then cmp\<lparr>is_enabled := False\<rparr> else cmp)
      in if name c1 = ''cameras'' then c1\<lparr>is_enabled := False\<rparr> else c1)"
| "adjust_component HIBERNATION cmp =
     (if priority cmp \<noteq> CRITICAL \<and> \<not> is_essential cmp
      then cmp\<lparr>is_enabled := False\<rparr> else cmp)"
| "adjust_component EMERGENCY cmp =
     (if priority cmp = CRITICAL
      then cmp\<lparr>is_enabled := True\<rparr> else cmp\<lparr>is_enabled := False\<rparr>)"

definition adjustComponentsForMode :: "PowerMode \<Rightarrow> 'f PowerComponent list \<Rightarrow> 'f PowerComponent list" where
  "adjustComponentsForMode m comps = map (adjust_component m) comps"

definition switchMode :: "PowerMode \<Rightarrow> 'f PowerManager \<Rightarrow> 'f PowerManager" where
  "switchMode new_mode s =
     s\<lparr>current_mode := new_mode,
       energy_state := (energy_state s)\<lparr>mode := new_mode\<rparr>,
       components := adjustComponentsForMode new_mode (components s),
       emitted := emitted s @
         [SwitchLogged (powerModeToString (current_mode s)) (powerModeToString new_mode),
          ModePublished (powerModeToString new_mode)]\<rparr>"

definition setMode :: "PowerMode \<Rightarrow> 'f PowerManager \<Rightarrow> 'f PowerManager" where
  "setMode m s = (if m \<noteq> current_mode s then switchMode m s else s)"

subsection \<open>Power allocation\<close>

text \<open>
  \<open>sorted_components\<close> holds pointers into \<open>components_\<close>; a pointer is modelled by the
  index of the component it points to, and a write through it by a list update.
\<close>

definition enabled_pointers :: "'f PowerComponent list \<Rightarrow> nat list" where
  "enabled_pointers comps = filter (\<lambda>i. is_enabled (comps ! i)) [0..<length comps]"

text \<open>The comparator handed to \<open>std::sort\<close>.\<close>

definition priority_less :: "'f PowerComponent list \<Rightarrow> nat \<Rightarrow> nat \<Rightarrow> bool" where
  "priority_less comps a b \<longleftrightarrow>
     priority_value (priority (comps ! a)) < priority_value (priority (comps ! b))"

text \<open>
  \<open>std::sort\<close> is library code. What the language promises of it is that the range is
  permuted so that no element compares less than an element before it; the order of
  elements that compare equivalent is not promised (that is \<open>std::stable_sort\<close>). The model
  is this contract: a relation between the pointers collected and the order in which the
  allocation loop then walks them.
\<close>

definition std_sort_result :: "'f PowerComponent list \<Rightarrow> nat list \<Rightarrow> nat list \<Rightarrow> bool" where
  "std_sort_result comps ptrs sorted_components \<longleftrightarrow>
     mset sorted_components = mset ptrs \<and>
     sorted_wrt (\<lambda>a b. \<not> priority_less comps b a) sorted_components"

text \<open>The \<open>for\<close> loop over \<open>sorted_components\<close>, with \<open>available_power\<close> as accumulator.\<close>

fun allocation_loop :: "nat list \<Rightarrow> real \<Rightarrow> real PowerComponent list \<Rightarrow> real PowerComponent list" where
  "allocation_loop [] available_power comps = comps"
| "allocation_loop (p # ps) available_power comps =
     (if available_power \<ge> nominal_power (comps ! p)
      then allocation_loop ps (available_power - nominal_power (comps ! p))
             (comps[p := (comps ! p)\<lparr>current_power := nominal_power (comps ! p)\<rparr>])
      else allocation_loop ps 0
             (comps[p := (comps ! p)\<lparr>current_power := available_power\<rparr>]))"

text \<open>
  \<open>allocatePower\<close>, given the order \<open>std::sort\<close> has left the pointers in; the order is
  admissible when \<open>std_sort_result\<close> holds of it.
\<close>

definition allocatePower :: "nat list \<Rightarrow> real PowerManager \<Rightarrow> real PowerManager" where
  "allocatePower sorted_components s =
     s\<lparr>components :=
         allocation_loop sorted_components (solar_generation (energy_state s)) (components s)\<rparr>"

text \<open>
  The budget left when the loop has walked a list of pointers (the value of
  \<open>available_power\<close> at that point); the nominal powers are never written.
\<close>

fun remaining_power :: "real PowerComponent list \<Rightarrow> nat list \<Rightarrow> real \<Rightarrow> real" where
  "remaining_power comps [] available_power = available_power"
| "remaining_power comps (p # ps) available_power =
     remaining_power comps ps
       (if available_power \<ge> nominal_power (comps ! p)
        then available_power - nominal_power (comps ! p) else 0)"



subsection \<open>The two timers\<close>

text \<open>\<open>managementLoop\<close> up to the call of \<open>allocatePower\<close>.\<close>

definition pre_allocation :: "real PowerManager \<Rightarrow> real PowerManager" where
  "pre_allocation s =
     (let s1 = updatePowerConsumption s;
          target_mode = decideMode s1
      in if target_mode \<noteq> current_mode s1 then switchMode target_mode s1 else s1)"

definition managementLoop :: "nat list \<Rightarrow> real PowerManager \<Rightarrow> real PowerManager" where
  "managementLoop sorted_components s =
     (let s3 = allocatePower sorted_components (pre_allocation s)
      in s3\<lparr>emitted := emitted s3 @ [BudgetPublished (getAvailablePower s3)]\<rparr>)"

definition predictEnergyForNextSol :: real where
  "predictEnergyForNextSol =
     (let avg_solar_generation = 80;
          sol_duration = 24.6 * 3600;
          daylight_fraction = 0.5;
          predicted_generation = avg_solar_generation * sol_duration * daylight_fraction / 3600;
          avg_consumption = 40;
          predicted_consumption = avg_consumption * sol_duration / 3600
      in predicted_generation - predicted_consumption)"

definition predictionLoop :: "real PowerManager \<Rightarrow> real PowerManager" where
  "predictionLoop s =
     s\<lparr>emitted := emitted s @
        [PredictionLogged predictEnergyForNextSol (battery_soc (energy_state s))
           (powerModeToString (current_mode s))]\<rparr>"

subsection \<open>Runs of the node\<close>

text \<open>
  The entry points the executor can call once the node is constructed; a management tick
  carries the order its \<open>std::sort\<close> call produces.
\<close>

datatype 'f call =
    BatteryMessage 'f
  | SolarMessage 'f
  | TwistMessage 'f 'f
  | ManagementTimer "nat list"
  | PredictionTimer
  | SetModeCall PowerMode

fun step :: "real call \<Rightarrow> real PowerManager \<Rightarrow> real PowerManager" where
  "step (BatteryMessage v) s = batteryCallback v s"
| "step (SolarMessage w) s = solarCallback w s"
| "step (TwistMessage lx az) s = velocityCallback lx az s"
| "step (ManagementTimer sorted_components) s = managementLoop sorted_components s"
| "step PredictionTimer s = predictionLoop s"
| "step (SetModeCall m) s = setMode m s"


fun run :: "real call list \<Rightarrow> real PowerManager \<Rightarrow> real PowerManager" where
  "run [] s = s"
| "run (c # cs) s = run cs (step c s)"



subsection \<open>The fixed catalog\<close>

text \<open>
  The fields of a component that no function writes, and the registries that agree with
  the catalog of \<open>initializeComponents\<close> on them.
\<close>

definition catalog_fields :: "'f PowerComponent \<Rightarrow> string \<times> ComponentPriority \<times> 'f \<times> bool" where
  "catalog_fields c = (name c, priority c, nominal_power c, is_essential c)"

definition catalog_registry :: "real PowerComponent list \<Rightarrow> bool" where
  "catalog_registry comps \<longleftrightarrow>
     map catalog_fields comps = map catalog_fields initializeComponents"

text \<open>The invariant behind the enabled flag of the CRITICAL components.\<close>

definition critical_inv :: "real PowerManager \<Rightarrow> bool" where
  "critical_inv s \<longleftrightarrow> catalog_registry (components s)
     \<and> (\<forall>c \<in> set (components s). priority c = CRITICAL \<longrightarrow> is_enabled c)"



section \<open>The power manager in binary32 arithmetic\<close>

text \<open>
  The definitions above compute in exact arithmetic. The ones of this section compute as
  the compiled program does: a \<open>float\<close> is an IEEE binary32 value, every operation rounds
  its exact result to the nearest binary32 value (ties to even), and NaN and the two
  infinities are values like any other. Zero carries no sign: the program never divides by
  a zero or looks at the sign of one. Expressions are evaluated in \<open>float\<close> precision.
  The records, the mode switch and the sort contract are shared with the exact model.
\<close>

subsection \<open>Binary32 values and operations\<close>

datatype ieee = NaN | MinusInf | Finite real | PlusInf

text \<open>Nearest integer, ties to the even one.\<close>

definition round_even :: "real \<Rightarrow> int" where
  "round_even r =
     (let f = \<lfloor>r\<rfloor>; d = r - of_int f
      in if d < 1 / 2 then f else if 1 / 2 < d then f + 1 else if even f then f else f + 1)"

text \<open>
  The exponent \<open>e\<close> of the binade \<open>[2^e, 2^(e+1))\<close> that holds a magnitude below \<open>2^128\<close>,
  found by halving a magnitude of at least 1 and by doubling a smaller one; it is not
  taken below -126 (subnormal numbers share the spacing of the lowest binade).
\<close>

fun binade_up :: "real \<Rightarrow> int \<Rightarrow> nat \<Rightarrow> int" where
  "binade_up a e 0 = e"
| "binade_up a e (Suc n) = (if a < 2 then e else binade_up (a / 2) (e + 1) n)"

fun binade_down :: "real \<Rightarrow> int \<Rightarrow> nat \<Rightarrow> int" where
  "binade_down a e 0 = e"
| "binade_down a e (Suc n) = (if 1 \<le> a then e else binade_down (a * 2) (e - 1) n)"

definition binade :: "real \<Rightarrow> int" where
  "binade a = (if 1 \<le> a then binade_up a 0 127 else binade_down a 0 126)"

definition overflow :: "real \<Rightarrow> ieee" where
  "overflow r = (if 2 powi 128 \<le> \<bar>r\<bar> then (if r < 0 then MinusInf else PlusInf) else Finite r)"

text \<open>
  Rounding a real to binary32: 24 significant bits, so the nearest multiple of the spacing
  \<open>2^(e-23)\<close> of its binade \<open>e\<close>, and an infinity when that leaves the range.
\<close>

definition nearest32 :: "real \<Rightarrow> real" where
  "nearest32 x =
     (let ulp = 2 powi (binade \<bar>x\<bar> - 23) in ulp * of_int (round_even (x / ulp)))"

definition round32 :: "real \<Rightarrow> ieee" where
  "round32 x = (if 2 powi 128 \<le> \<bar>x\<bar> then overflow x else overflow (nearest32 x))"

text \<open>A \<open>float\<close> literal, and the conversion of a \<open>double\<close> to \<open>float\<close>.\<close>

definition f32 :: "real \<Rightarrow> ieee" where
  "f32 x = round32 x"

fun to_float :: "ieee \<Rightarrow> ieee" where
  "to_float (Finite x) = round32 x"
| "to_float NaN = NaN"
| "to_float MinusInf = MinusInf"
| "to_float PlusInf = PlusInf"

fun fneg :: "ieee \<Rightarrow> ieee" where
  "fneg (Finite x) = Finite (- x)"
| "fneg NaN = NaN"
| "fneg MinusInf = PlusInf"
| "fneg PlusInf = MinusInf"

fun fabs :: "ieee \<Rightarrow> ieee" where
  "fabs (Finite x) = Finite \<bar>x\<bar>"
| "fabs NaN = NaN"
| "fabs MinusInf = PlusInf"
| "fabs PlusInf = PlusInf"

fun fadd :: "ieee \<Rightarrow> ieee \<Rightarrow> ieee" where
  "fadd (Finite x) (Finite y) = round32 (x + y)"
| "fadd NaN b = NaN"
| "fadd a NaN = NaN"
| "fadd PlusInf MinusInf = NaN"
| "fadd MinusInf PlusInf = NaN"
| "fadd PlusInf b = PlusInf"
| "fadd a PlusInf = PlusInf"
| "fadd MinusInf b = MinusInf"
| "fadd a MinusInf = MinusInf"

definition fsub :: "ieee \<Rightarrow> ieee \<Rightarrow> ieee" where
  "fsub a b = fadd a (fneg b)"

fun fmul :: "ieee \<Rightarrow> ieee \<Rightarrow> ieee" where
  "fmul (Finite x) (Finite y) = round32 (x * y)"
| "fmul NaN b = NaN"
| "fmul a NaN = NaN"
| "fmul PlusInf (Finite y) = (if y = 0 then NaN else if 0 < y then PlusInf else MinusInf)"
| "fmul MinusInf (Finite y) = (if y = 0 then NaN else if 0 < y then MinusInf else PlusInf)"
| "fmul (Finite x) PlusInf = (if x = 0 then NaN else if 0 < x then PlusInf else MinusInf)"
| "fmul (Finite x) MinusInf = (if x = 0 then NaN else if 0 < x then MinusInf else PlusInf)"
| "fmul PlusInf PlusInf = PlusInf"
| "fmul MinusInf MinusInf = PlusInf"
| "fmul PlusInf MinusInf = MinusInf"
| "fmul MinusInf PlusInf = MinusInf"

fun fdiv :: "ieee \<Rightarrow> ieee \<Rightarrow> ieee" where
  "fdiv (Finite x) (Finite y) =
     (if y = 0 then (if x = 0 then NaN else if 0 < x then PlusInf else MinusInf)
      else round32 (x / y))"
| "fdiv NaN b = NaN"
| "fdiv a NaN = NaN"
| "fdiv (Finite x) PlusInf = Finite 0"
| "fdiv (Finite x) MinusInf = Finite 0"
| "fdiv PlusInf (Finite y) = (if 0 \<le> y then PlusInf else MinusInf)"
| "fdiv MinusInf (Finite y) = (if 0 \<le> y then MinusInf else PlusInf)"
| "fdiv PlusInf b = NaN"
| "fdiv MinusInf b = NaN"

text \<open>The comparisons \<open><\<close> and \<open><=\<close>; \<open>a > b\<close> is \<open>b < a\<close> and \<open>a >= b\<close> is \<open>b <= a\<close>.\<close>

fun flt :: "ieee \<Rightarrow> ieee \<Rightarrow> bool" where
  "flt (Finite x) (Finite y) = (x < y)"
| "flt NaN b = False"
| "flt a NaN = False"
| "flt a MinusInf = False"
| "flt PlusInf b = False"
| "flt MinusInf b = True"
| "flt a PlusInf = True"

fun fle :: "ieee \<Rightarrow> ieee \<Rightarrow> bool" where
  "fle (Finite x) (Finite y) = (x \<le> y)"
| "fle NaN b = False"
| "fle a NaN = False"
| "fle MinusInf b = True"
| "fle a PlusInf = True"
| "fle a MinusInf = False"
| "fle PlusInf b = False"

subsection \<open>Construction, queries and callbacks\<close>

definition initializeComponents_f32 :: "ieee PowerComponent list" where
  "initializeComponents_f32 =
    [mk_component ''communication'' CRITICAL (f32 15) (f32 15) True True,
     mk_component ''fdir_watchdog'' CRITICAL (f32 5) (f32 5) True True,
     mk_component ''navigation'' HIGH (f32 25) (f32 25) True True,
     mk_component ''motors'' HIGH (f32 50) (f32 0) True True,
     mk_component ''lidar'' MEDIUM (f32 20) (f32 20) True False,
     mk_component ''cameras'' MEDIUM (f32 15) (f32 15) True False,
     mk_component ''science_instruments'' LOW (f32 30) (f32 0) True False,
     mk_component ''heating'' MEDIUM (f32 40) (f32 0) True False]"

definition initial_energy_state_f32 :: "ieee EnergyState" where
  "initial_energy_state_f32 =
     \<lparr>battery_soc = f32 100, voltage = f32 28, current = f32 0, power_consumption = f32 0,
      solar_generation = f32 0, temperature = f32 20, mode = NORMAL\<rparr>"

definition initial_manager_f32 :: "ieee PowerManager" where
  "initial_manager_f32 =
     \<lparr>current_mode = NORMAL, energy_state = initial_energy_state_f32,
      components = initializeComponents_f32, emitted = []\<rparr>"

fun critical_power_loop_f32 :: "ieee PowerComponent list \<Rightarrow> ieee \<Rightarrow> ieee" where
  "critical_power_loop_f32 [] critical_power = critical_power"
| "critical_power_loop_f32 (cmp # rest) critical_power =
     critical_power_loop_f32 rest
       (if is_enabled cmp \<and> priority cmp = CRITICAL
        then fadd critical_power (current_power cmp) else critical_power)"

definition getCriticalPowerConsumption_f32 :: "ieee PowerManager \<Rightarrow> ieee" where
  "getCriticalPowerConsumption_f32 s = critical_power_loop_f32 (components s) (f32 0)"

definition std_max_f32 :: "ieee \<Rightarrow> ieee \<Rightarrow> ieee" where
  "std_max_f32 a b = (if flt a b then b else a)"

definition getAvailablePower_f32 :: "ieee PowerManager \<Rightarrow> ieee" where
  "getAvailablePower_f32 s =
     (let net_power = fsub (solar_generation (energy_state s)) (getCriticalPowerConsumption_f32 s)
      in std_max_f32 (f32 0) net_power)"

definition std_clamp_f32 :: "ieee \<Rightarrow> ieee \<Rightarrow> ieee \<Rightarrow> ieee" where
  "std_clamp_f32 v lo hi = (if flt v lo then lo else if flt hi v then hi else v)"

definition batteryCallback_f32 :: "ieee \<Rightarrow> ieee PowerManager \<Rightarrow> ieee PowerManager" where
  "batteryCallback_f32 data s =
     (let es1 = (energy_state s)\<lparr>voltage := data\<rparr>;
          es2 = es1\<lparr>battery_soc := fmul (fdiv (fsub data (f32 24)) (f32 5.4)) (f32 100)\<rparr>;
          es3 = es2\<lparr>battery_soc := std_clamp_f32 (battery_soc es2) (f32 0) (f32 100)\<rparr>
      in s\<lparr>energy_state := es3, emitted := emitted s @ [SocPublished (battery_soc es3)]\<rparr>)"

text \<open>
  The fields of a Twist message are \<open>double\<close>; \<open>std::abs\<close> is taken in \<open>double\<close> and the
  result converted on assignment to the \<open>float\<close> locals.
\<close>

definition velocityCallback_f32 :: "ieee \<Rightarrow> ieee \<Rightarrow> ieee PowerManager \<Rightarrow> ieee PowerManager" where
  "velocityCallback_f32 linear_x angular_z s =
     (let speed = to_float (fabs linear_x);
          angular = to_float (fabs angular_z);
          motor_power = fadd (fadd (f32 10) (fmul (f32 40) speed)) (fmul (f32 20) angular)
      in s\<lparr>components := set_motor_power motor_power (components s)\<rparr>)"

subsection \<open>Decision, allocation and the timers\<close>

fun consumption_loop_f32 :: "ieee PowerComponent list \<Rightarrow> ieee \<Rightarrow> ieee" where
  "consumption_loop_f32 [] total_acc = total_acc"
| "consumption_loop_f32 (cmp # rest) total_acc =
     consumption_loop_f32 rest
       (if is_enabled cmp then fadd total_acc (current_power cmp) else total_acc)"

definition updatePowerConsumption_f32 :: "ieee PowerManager \<Rightarrow> ieee PowerManager" where
  "updatePowerConsumption_f32 s =
     s\<lparr>energy_state :=
         (energy_state s)\<lparr>power_consumption := consumption_loop_f32 (components s) (f32 0)\<rparr>\<rparr>"

definition determineTargetMode_f32 :: "ieee PowerManager \<Rightarrow> ieee \<Rightarrow> ieee \<Rightarrow> PowerMode" where
  "determineTargetMode_f32 s soc power_balance =
     (if flt soc (f32 15) then EMERGENCY
      else if flt (solar_generation (energy_state s)) (f32 5) \<and> flt soc (f32 50) then HIBERNATION
      else if flt soc (f32 30) \<or> flt power_balance (fneg (f32 10)) then LOW_POWER
      else if flt (f32 40) soc \<and> flt (f32 0) power_balance then NORMAL
      else current_mode s)"

definition decideMode_f32 :: "ieee PowerManager \<Rightarrow> PowerMode" where
  "decideMode_f32 s =
     (let power_balance =
            fsub (solar_generation (energy_state s)) (power_consumption (energy_state s))
      in determineTargetMode_f32 s (battery_soc (energy_state s)) power_balance)"

fun allocation_loop_f32 ::
  "nat list \<Rightarrow> ieee \<Rightarrow> ieee PowerComponent list \<Rightarrow> ieee PowerComponent list" where
  "allocation_loop_f32 [] available_power comps = comps"
| "allocation_loop_f32 (p # ps) available_power comps =
     (if fle (nominal_power (comps ! p)) available_power
      then allocation_loop_f32 ps (fsub available_power (nominal_power (comps ! p)))
             (comps[p := (comps ! p)\<lparr>current_power := nominal_power (comps ! p)\<rparr>])
      else allocation_loop_f32 ps (f32 0)
             (comps[p := (comps ! p)\<lparr>current_power := available_power\<rparr>]))"

definition allocatePower_f32 :: "nat list \<Rightarrow> ieee PowerManager \<Rightarrow> ieee PowerManager" where
  "allocatePower_f32 sorted_components s =
     s\<lparr>components :=
         allocation_loop_f32 sorted_components (solar_generation (energy_state s)) (components s)\<rparr>"

definition pre_allocation_f32 :: "ieee PowerManager \<Rightarrow> ieee PowerManager" where
  "pre_allocation_f32 s =
     (let s1 = updatePowerConsumption_f32 s;
          target_mode = decideMode_f32 s1
      in if target_mode \<noteq> current_mode s1 then switchMode target_mode s1 else s1)"

definition managementLoop_f32 :: "nat list \<Rightarrow> ieee PowerManager \<Rightarrow> ieee PowerManager" where
  "managementLoop_f32 sorted_components s =
     (let s3 = allocatePower_f32 sorted_components (pre_allocation_f32 s)
      in s3\<lparr>emitted := emitted s3 @ [BudgetPublished (getAvailablePower_f32 s3)]\<rparr>)"

definition predictEnergyForNextSol_f32 :: ieee where
  "predictEnergyForNextSol_f32 =
     (let avg_solar_generation = f32 80;
          sol_duration = fmul (f32 24.6) (f32 3600);
          daylight_fraction = f32 0.5;
          predicted_generation =
            fdiv (fmul (fmul avg_solar_generation sol_duration) daylight_fraction) (f32 3600);
          avg_consumption = f32 40;
          predicted_consumption = fdiv (fmul avg_consumption sol_duration) (f32 3600)
      in fsub predicted_generation predicted_consumption)"

definition predictionLoop_f32 :: "ieee PowerManager \<Rightarrow> ieee PowerManager" where
  "predictionLoop_f32 s =
     s\<lparr>emitted := emitted s @
        [PredictionLogged predictEnergyForNextSol_f32 (battery_soc (energy_state s))
           (powerModeToString (current_mode s))]\<rparr>"

subsection \<open>Runs in binary32\<close>

fun step_f32 :: "ieee call \<Rightarrow> ieee PowerManager \<Rightarrow> ieee PowerManager" where
  "step_f32 (BatteryMessage v) s = batteryCallback_f32 v s"
| "step_f32 (SolarMessage w) s = solarCallback w s"
| "step_f32 (TwistMessage lx az) s = velocityCallback_f32 lx az s"
| "step_f32 (ManagementTimer sorted_components) s = managementLoop_f32 sorted_components s"
| "step_f32 PredictionTimer s = predictionLoop_f32 s"
| "step_f32 (SetModeCall m) s = setMode m s"

fun admissible_f32 :: "ieee call \<Rightarrow> ieee PowerManager \<Rightarrow> bool" where
  "admissible_f32 (ManagementTimer sorted_components) s =
     std_sort_result (components (pre_allocation_f32 s))
       (enabled_pointers (components (pre_allocation_f32 s))) sorted_components"
| "admissible_f32 _ s = True"

fun run_f32 :: "ieee call list \<Rightarrow> ieee PowerManager \<Rightarrow> ieee PowerManager" where
  "run_f32 [] s = s"
| "run_f32 (c # cs) s = run_f32 cs (step_f32 c s)"

fun admissible_run_f32 :: "ieee call list \<Rightarrow> ieee PowerManager \<Rightarrow> bool" where
  "admissible_run_f32 [] s = True"
| "admissible_run_f32 (c # cs) s \<longleftrightarrow> admissible_f32 c s \<and> admissible_run_f32 cs (step_f32 c s)"

subsection \<open>Catalog and bounds in binary32\<close>

text \<open>
  Registries that agree with the binary32 catalog on the fields nothing writes; the
  conditions on incoming samples under which bounds on \<open>current_power\<close> hold; and the two
  invariants built from them.
\<close>

definition catalog_registry_f32 :: "ieee PowerComponent list \<Rightarrow> bool" where
  "catalog_registry_f32 comps \<longleftrightarrow>
     map catalog_fields comps = map catalog_fields initializeComponents_f32"

fun solar_is_number :: "ieee call \<Rightarrow> bool" where
  "solar_is_number (SolarMessage w) = (w \<noteq> NaN)"
| "solar_is_number _ = True"

fun solar_nonnegative :: "ieee call \<Rightarrow> bool" where
  "solar_nonnegative (SolarMessage w) = fle (Finite 0) w"
| "solar_nonnegative _ = True"

fun twist_is_number :: "ieee call \<Rightarrow> bool" where
  "twist_is_number (TwistMessage lx az) = (lx \<noteq> NaN \<and> az \<noteq> NaN)"
| "twist_is_number _ = True"

definition below_nominal :: "ieee PowerComponent \<Rightarrow> bool" where
  "below_nominal c \<longleftrightarrow> (name c \<noteq> ''motors'' \<longrightarrow> fle (current_power c) (nominal_power c))"

definition upper_inv :: "ieee PowerManager \<Rightarrow> bool" where
  "upper_inv s \<longleftrightarrow> catalog_registry_f32 (components s)
     \<and> solar_generation (energy_state s) \<noteq> NaN
     \<and> (\<forall>c \<in> set (components s). below_nominal c)"

definition lower_inv :: "ieee PowerManager \<Rightarrow> bool" where
  "lower_inv s \<longleftrightarrow> catalog_registry_f32 (components s)
     \<and> fle (Finite 0) (solar_generation (energy_state s))
     \<and> (\<forall>c \<in> set (components s). fle (Finite 0) (current_power c))"

text \<open>A binary32 manager with given state of charge, solar generation, consumption and mode.\<close>

definition energy_sample_f32 :: "ieee \<Rightarrow> ieee \<Rightarrow> ieee \<Rightarrow> PowerMode \<Rightarrow> ieee PowerManager" where
  "energy_sample_f32 soc solar consumption m =
     initial_manager_f32\<lparr>current_mode := m,
       energy_state := initial_energy_state_f32\<lparr>battery_soc := soc, solar_generation := solar,
         power_consumption := consumption, mode := m\<rparr>\<rparr>"

subsection \<open>Sample states\<close>

text \<open>A manager with given state of charge, solar generation, consumption and mode.\<close>

definition energy_sample :: "real \<Rightarrow> real \<Rightarrow> real \<Rightarrow> PowerMode \<Rightarrow> real PowerManager" where
  "energy_sample soc solar consumption m =
     initial_manager\<lparr>current_mode := m,
       energy_state := initial_energy_state\<lparr>battery_soc := soc, solar_generation := solar,
         power_consumption := consumption, mode := m\<rparr>\<rparr>"

section \<open>Properties\<close>

lemma energy_sample_simps [simp]:
  "battery_soc (energy_state (energy_sample soc solar consumption m)) = soc"
  "solar_generation (energy_state (energy_sample soc solar consumption m)) = solar"
  "power_consumption (energy_state (energy_sample soc solar consumption m)) = consumption"
  "current_mode (energy_sample soc solar consumption m) = m"
  by (simp_all add: energy_sample_def initial_manager_def initial_energy_state_def)

lemma critical_power_loop_sum:
  "critical_power_loop comps acc =
     acc + sum_list (map current_power (filter (\<lambda>c. is_enabled c \<and> priority c = CRITICAL) comps))"
  by (induction comps arbitrary: acc) simp_all

lemma consumption_loop_sum:
  "consumption_loop comps acc = acc + sum_list (map current_power (filter is_enabled comps))"
  by (induction comps arbitrary: acc) simp_all

subsection \<open>The mode decision\<close>



text \<open>
  C4. As stated (state of charge in (30, 40] and balance in [-10, 0] always give the
  current mode back) the property fails: the HIBERNATION rule is tried before the band
  and fires when solar generation is below 5. At a state of charge of 35 with no solar
  generation and no consumption, the mode NORMAL is answered by HIBERNATION.
\<close>

theorem hysteresis_band_counterexample:
  "30 < battery_soc (energy_state (energy_sample 35 0 0 NORMAL))
   \<and> battery_soc (energy_state (energy_sample 35 0 0 NORMAL)) \<le> 40
   \<and> - 10 \<le> solar_generation (energy_state (energy_sample 35 0 0 NORMAL))
            - power_consumption (energy_state (energy_sample 35 0 0 NORMAL))
   \<and> solar_generation (energy_state (energy_sample 35 0 0 NORMAL))
            - power_consumption (energy_state (energy_sample 35 0 0 NORMAL)) \<le> 0
   \<and> current_mode (energy_sample 35 0 0 NORMAL) = NORMAL
   \<and> decideMode (energy_sample 35 0 0 NORMAL) = HIBERNATION"
  by (simp add: decideMode_def determineTargetMode_def Let_def)

text \<open>
  C4, amended. With solar generation of at least 5 in addition, a state of charge in
  (30, 40] and a balance in [-10, 0] give the current mode back, whatever that mode is.
  Deciding again from the same energy state with the decided mode as current mode gives
  the same answer, in the band or out of it.
\<close>

theorem hysteresis_band_with_solar:
  "(30 < battery_soc (energy_state s) \<and> battery_soc (energy_state s) \<le> 40
    \<and> - 10 \<le> solar_generation (energy_state s) - power_consumption (energy_state s)
    \<and> solar_generation (energy_state s) - power_consumption (energy_state s) \<le> 0
    \<and> 5 \<le> solar_generation (energy_state s)
    \<longrightarrow> decideMode s = current_mode s)
   \<and> decideMode (s\<lparr>current_mode := decideMode s\<rparr>) = decideMode s"
  by (simp add: decideMode_def determineTargetMode_def Let_def)

theorem hysteresis_band_with_solar_witness:
  "decideMode (energy_sample 35 20 25 EMERGENCY) = EMERGENCY
   \<and> decideMode (energy_sample 35 20 25 NORMAL) = NORMAL"
  using hysteresis_band_with_solar [of "energy_sample 35 20 25 EMERGENCY"]
    hysteresis_band_with_solar [of "energy_sample 35 20 25 NORMAL"]
  by simp

subsection \<open>Mode transitions\<close>

text \<open>
  C6. After the EMERGENCY adjustment a component is enabled exactly when its priority is
  CRITICAL, also when reached through \<open>switchMode\<close>; nothing but the enabled flags is
  changed, and the result does not depend on the enabled flags before.
\<close>

theorem emergency_enables_exactly_critical:
  "(\<forall>c \<in> set (adjustComponentsForMode EMERGENCY comps).
       is_enabled c \<longleftrightarrow> priority c = CRITICAL)
   \<and> (\<forall>c \<in> set (components (switchMode EMERGENCY s)).
       is_enabled c \<longleftrightarrow> priority c = CRITICAL)
   \<and> map (\<lambda>c. c\<lparr>is_enabled := False\<rparr>) (adjustComponentsForMode EMERGENCY comps)
       = map (\<lambda>c. c\<lparr>is_enabled := False\<rparr>) comps
   \<and> (map (\<lambda>c. c\<lparr>is_enabled := False\<rparr>) comps' = map (\<lambda>c. c\<lparr>is_enabled := False\<rparr>) comps
        \<longrightarrow> adjustComponentsForMode EMERGENCY comps' = adjustComponentsForMode EMERGENCY comps)"
proof (intro conjI impI)
  show "\<forall>c \<in> set (adjustComponentsForMode EMERGENCY comps). is_enabled c \<longleftrightarrow> priority c = CRITICAL"
    by (auto simp add: adjustComponentsForMode_def)
  show "\<forall>c \<in> set (components (switchMode EMERGENCY s)). is_enabled c \<longleftrightarrow> priority c = CRITICAL"
    by (auto simp add: switchMode_def adjustComponentsForMode_def)
  show "map (\<lambda>c. c\<lparr>is_enabled := False\<rparr>) (adjustComponentsForMode EMERGENCY comps)
       = map (\<lambda>c. c\<lparr>is_enabled := False\<rparr>) comps"
    by (simp add: adjustComponentsForMode_def)
next
  assume eq: "map (\<lambda>c. c\<lparr>is_enabled := False\<rparr>) comps' = map (\<lambda>c. c\<lparr>is_enabled := False\<rparr>) comps"
  have "adjust_component EMERGENCY c = adjust_component EMERGENCY (c\<lparr>is_enabled := False\<rparr>)" for c
    by simp
  then have key: "adjustComponentsForMode EMERGENCY xs
      = map (adjust_component EMERGENCY) (map (\<lambda>c. c\<lparr>is_enabled := False\<rparr>) xs)" for xs
    unfolding adjustComponentsForMode_def map_map by (intro map_cong) simp_all
  show "adjustComponentsForMode EMERGENCY comps' = adjustComponentsForMode EMERGENCY comps"
    using eq by (simp only: key)
qed

theorem emergency_enables_exactly_critical_witness:
  "map is_enabled (adjustComponentsForMode EMERGENCY initializeComponents)
     = [True, True, False, False, False, False, False, False]
   \<and> map is_enabled (adjustComponentsForMode EMERGENCY
        (adjustComponentsForMode HIBERNATION initializeComponents))
     = [True, True, False, False, False, False, False, False]"
  using emergency_enables_exactly_critical [of initializeComponents initial_manager
      "adjustComponentsForMode HIBERNATION initializeComponents"]
  by (simp add: adjustComponentsForMode_def initializeComponents_def mk_component_def)

subsection \<open>Setting the active mode again\<close>

text \<open>
  C7. \<open>setMode\<close> called with the mode that is already the current one returns the manager
  as it was: the current mode, the energy state, every field of every component and the
  sequence of emitted messages (so no mode notification and no log line) are the same.
  Hence asking for any mode twice does what asking once does.
\<close>

theorem setMode_current_noop:
  "setMode (current_mode s) s = s
   \<and> setMode m (setMode m s) = setMode m s"
  by (simp add: setMode_def switchMode_def)

subsection \<open>Telemetry and queries\<close>



text \<open>
  C9. The available power reported is \<open>max(0, solar_generation - critical)\<close>, where
  \<open>critical\<close> is the sum of \<open>current_power\<close> over the components that are enabled and of
  CRITICAL priority; it is never negative.
\<close>

theorem getAvailablePower_formula:
  "getAvailablePower s =
     max 0 (solar_generation (energy_state s) -
            sum_list (map current_power
              (filter (\<lambda>c. is_enabled c \<and> priority c = CRITICAL) (components s))))
   \<and> 0 \<le> getAvailablePower s"
  by (simp add: getAvailablePower_def getCriticalPowerConsumption_def std_max_def
      critical_power_loop_sum max_def)

subsection \<open>The allocation loop\<close>

lemma nominal_power_pointer_write:
  "nominal_power (comps[p := (comps ! p)\<lparr>current_power := v\<rparr>] ! i) = nominal_power (comps ! i)"
proof (cases "p < length comps")
  case True
  then show ?thesis by (cases "i = p") simp_all
next
  case False
  then have "length comps \<le> p" by simp
  then show ?thesis by (simp only: list_update_beyond)
qed

lemma length_allocation_loop: "length (allocation_loop ps b comps) = length comps"
  by (induction ps arbitrary: b comps) simp_all

lemma allocation_loop_untouched:
  "i \<notin> set ps \<Longrightarrow> allocation_loop ps b comps ! i = comps ! i"
  by (induction ps arbitrary: b comps) simp_all

lemma allocation_loop_other_fields:
  "map (\<lambda>c. c\<lparr>current_power := 0\<rparr>) (allocation_loop ps b comps)
     = map (\<lambda>c. c\<lparr>current_power := 0\<rparr>) comps"
proof (induction ps arbitrary: b comps)
  case Nil
  show ?case by simp
next
  case (Cons p ps)
  have "map (\<lambda>c. c\<lparr>current_power := 0\<rparr>) (comps[p := (comps ! p)\<lparr>current_power := v\<rparr>])
      = map (\<lambda>c. c\<lparr>current_power := 0\<rparr>) comps" for v
  proof (cases "p < length comps")
    case True
    then show ?thesis by (simp add: map_update list_update_same_conv)
  next
    case False
    then have "length comps \<le> p" by simp
    then show ?thesis by (simp only: list_update_beyond)
  qed
  with Cons.IH show ?case by simp
qed

lemma allocation_loop_nominal:
  "nominal_power (allocation_loop ps b comps ! i) = nominal_power (comps ! i)"
  by (induction ps arbitrary: b comps) (simp_all add: nominal_power_pointer_write)

lemma remaining_power_cong:
  "(\<And>p. nominal_power (comps' ! p) = nominal_power (comps ! p))
   \<Longrightarrow> remaining_power comps' ps b = remaining_power comps ps b"
  by (induction ps arbitrary: b) simp_all

lemma allocation_loop_append:
  "allocation_loop (xs @ ys) b comps
     = allocation_loop ys (remaining_power comps xs b) (allocation_loop xs b comps)"
proof (induction xs arbitrary: b comps)
  case Nil
  show ?case by simp
next
  case (Cons x xs)
  have same: "remaining_power (comps[x := (comps ! x)\<lparr>current_power := v\<rparr>]) xs c
      = remaining_power comps xs c" for v c
    by (rule remaining_power_cong) (rule nominal_power_pointer_write)
  show ?case by (simp add: Cons.IH same)
qed

lemma remaining_power_append:
  "remaining_power comps (xs @ ys) b = remaining_power comps ys (remaining_power comps xs b)"
  by (induction xs arbitrary: b) simp_all

lemma allocation_loop_assigns:
  assumes "p \<notin> set post" and "p < length comps"
  shows "current_power (allocation_loop (pre @ p # post) b comps ! p)
           = min (nominal_power (comps ! p)) (remaining_power comps pre b)"
proof -
  let ?c1 = "allocation_loop pre b comps"
  have len: "p < length ?c1" using assms(2) by (simp add: length_allocation_loop)
  have nom: "nominal_power (?c1 ! p) = nominal_power (comps ! p)"
    by (rule allocation_loop_nominal)
  show ?thesis
    using assms(1) len
    by (simp add: allocation_loop_append allocation_loop_untouched nom min_def)
qed

lemma remaining_power_closed:
  assumes "\<forall>p \<in> set ps. 0 \<le> nominal_power (comps ! p)"
  shows "remaining_power comps ps b
           = (if ps = [] then b
              else max 0 (b - sum_list (map (\<lambda>p. nominal_power (comps ! p)) ps)))"
  using assms
proof (induction ps arbitrary: b)
  case Nil
  show ?case by simp
next
  case (Cons x xs)
  have nn: "0 \<le> sum_list (map (\<lambda>p. nominal_power (comps ! p)) xs)"
    using Cons.prems by (intro sum_list_nonneg) auto
  have x0: "0 \<le> nominal_power (comps ! x)" using Cons.prems by simp
  have ih: "remaining_power comps xs c
      = (if xs = [] then c else max 0 (c - sum_list (map (\<lambda>p. nominal_power (comps ! p)) xs)))" for c
    using Cons.IH Cons.prems by simp
  show ?case using nn x0 by (simp add: ih max_def)
qed


lemma assigned_at_index:
  assumes "distinct ord" and "\<forall>p \<in> set ord. p < length comps" and "k < length ord"
  shows "current_power (allocation_loop ord b comps ! (ord ! k))
           = min (nominal_power (comps ! (ord ! k))) (remaining_power comps (take k ord) b)"
proof -
  have split: "ord = take k ord @ ord ! k # drop (Suc k) ord"
    using assms(3) by (rule id_take_nth_drop)
  have "distinct (take k ord @ ord ! k # drop (Suc k) ord)"
    using assms(1) split by simp
  then have notin: "ord ! k \<notin> set (drop (Suc k) ord)" by simp
  have inrange: "ord ! k < length comps" using assms(2,3) by simp
  have "current_power (allocation_loop (take k ord @ ord ! k # drop (Suc k) ord) b comps ! (ord ! k))
      = min (nominal_power (comps ! (ord ! k))) (remaining_power comps (take k ord) b)"
    using notin inrange by (rule allocation_loop_assigns)
  with split show ?thesis by simp
qed

lemma remaining_power_step:
  assumes "k < length ord"
  shows "remaining_power comps (take (Suc k) ord) b
           = remaining_power comps (take k ord) b
             - min (nominal_power (comps ! (ord ! k))) (remaining_power comps (take k ord) b)"
  using assms by (simp add: take_Suc_conv_app_nth remaining_power_append min_def)

lemma prefix_sum_mono:
  fixes f :: "nat \<Rightarrow> real"
  assumes "\<forall>x \<in> set xs. 0 \<le> f x" and "i \<le> j"
  shows "sum_list (map f (take i xs)) \<le> sum_list (map f (take j xs))"
proof -
  have "take j xs = take i xs @ take (j - i) (drop i xs)"
    using assms(2) take_add [of i "j - i" xs] by simp
  moreover have "0 \<le> sum_list (map f (take (j - i) (drop i xs)))"
    using assms(1) by (intro sum_list_nonneg) (auto dest!: in_set_takeD in_set_dropD)
  ultimately show ?thesis by simp
qed

lemma prefix_sum_Suc:
  fixes f :: "nat \<Rightarrow> real"
  assumes "k < length xs"
  shows "sum_list (map f (take (Suc k) xs)) = sum_list (map f (take k xs)) + f (xs ! k)"
  using assms by (simp add: take_Suc_conv_app_nth)

lemma budget_covers_all:
  assumes d: "distinct ord" and r: "\<forall>p \<in> set ord. p < length comps"
    and n: "\<forall>p \<in> set ord. 0 \<le> nominal_power (comps ! p)"
    and b: "sum_list (map (\<lambda>p. nominal_power (comps ! p)) ord) \<le> b"
    and k: "k < length ord"
  shows "current_power (allocation_loop ord b comps ! (ord ! k)) = nominal_power (comps ! (ord ! k))"
proof -
  let ?f = "\<lambda>p. nominal_power (comps ! p)"
  have "sum_list (map ?f (take (Suc k) ord)) \<le> sum_list (map ?f (take (length ord) ord))"
    using n k by (intro prefix_sum_mono) simp_all
  then have le: "sum_list (map ?f (take k ord)) + ?f (ord ! k) \<le> b"
    using b k by (simp add: prefix_sum_Suc)
  have n': "\<forall>p \<in> set (take k ord). 0 \<le> nominal_power (comps ! p)"
    using n by (auto dest: in_set_takeD)
  have "?f (ord ! k) \<le> remaining_power comps (take k ord) b"
  proof (cases "take k ord = []")
    case True
    have "sum_list (map ?f (take k ord)) = 0" by (simp only: True list.map sum_list.Nil)
    with le show ?thesis by (simp add: remaining_power_closed [OF n'] True)
  next
    case False
    with le show ?thesis by (simp add: remaining_power_closed [OF n'] max_def)
  qed
  then show ?thesis
    by (simp add: assigned_at_index [OF d r k])
qed

lemma budget_zero:
  assumes d: "distinct ord" and r: "\<forall>p \<in> set ord. p < length comps"
    and n: "\<forall>p \<in> set ord. 0 \<le> nominal_power (comps ! p)"
    and k: "k < length ord"
  shows "current_power (allocation_loop ord 0 comps ! (ord ! k)) = 0"
proof -
  let ?f = "\<lambda>p. nominal_power (comps ! p)"
  have n': "\<forall>p \<in> set (take k ord). 0 \<le> nominal_power (comps ! p)"
    using n by (auto dest: in_set_takeD)
  have "0 \<le> sum_list (map ?f (take k ord))"
    using n' by (intro sum_list_nonneg) auto
  then have "remaining_power comps (take k ord) 0 = 0"
    by (simp add: remaining_power_closed [OF n'] max_def)
  moreover have "0 \<le> ?f (ord ! k)" using n k by simp
  ultimately show ?thesis
    by (simp add: assigned_at_index [OF d r k])
qed

lemma budget_short:
  assumes d: "distinct ord" and r: "\<forall>p \<in> set ord. p < length comps"
    and n: "\<forall>p \<in> set ord. 0 \<le> nominal_power (comps ! p)"
    and b: "b < sum_list (map (\<lambda>p. nominal_power (comps ! p)) ord)"
    and ne: "ord \<noteq> []"
  shows "\<exists>k < length ord.
           (\<forall>j < k. current_power (allocation_loop ord b comps ! (ord ! j))
                      = nominal_power (comps ! (ord ! j)))
         \<and> current_power (allocation_loop ord b comps ! (ord ! k))
             = b - sum_list (map (\<lambda>p. nominal_power (comps ! p)) (take k ord))
         \<and> current_power (allocation_loop ord b comps ! (ord ! k))
             < nominal_power (comps ! (ord ! k))
         \<and> (\<forall>j. k < j \<and> j < length ord
                \<longrightarrow> current_power (allocation_loop ord b comps ! (ord ! j)) = 0)"
proof -
  let ?f = "\<lambda>p. nominal_power (comps ! p)"
  define S where "S j = sum_list (map ?f (take j ord))" for j
  have S_Suc: "S (Suc j) = S j + ?f (ord ! j)" if "j < length ord" for j
    using that by (simp add: S_def prefix_sum_Suc)
  have S_mono: "S i \<le> S j" if "i \<le> j" for i j
    unfolding S_def using n that by (rule prefix_sum_mono)
  have S0: "S 0 = 0" by (simp add: S_def)
  have rem: "remaining_power comps (take j ord) b = (if j = 0 then b else max 0 (b - S j))"
    if "j < length ord" for j
  proof -
    have n': "\<forall>p \<in> set (take j ord). 0 \<le> nominal_power (comps ! p)"
      using n by (auto dest: in_set_takeD)
    have "take j ord = [] \<longleftrightarrow> j = 0" using that ne by (cases j) auto
    then show ?thesis by (simp add: remaining_power_closed [OF n'] S_def)
  qed
  have cur: "current_power (allocation_loop ord b comps ! (ord ! j))
      = min (?f (ord ! j)) (if j = 0 then b else max 0 (b - S j))" if "j < length ord" for j
    using assigned_at_index [OF d r that, of b] rem [OF that] by simp
  have nn: "0 \<le> ?f (ord ! j)" if "j < length ord" for j
    using n that by simp
  have last: "length ord - 1 < length ord \<and> b < S (Suc (length ord - 1))"
    using ne b by (simp add: S_def)
  then have "\<exists>k. k < length ord \<and> b < S (Suc k)" by blast
  then obtain k where k: "k < length ord" "b < S (Suc k)"
    and least: "\<forall>m < k. \<not> (m < length ord \<and> b < S (Suc m))"
    using exists_least_iff [of "\<lambda>k. k < length ord \<and> b < S (Suc k)"] by blast
  have served: "current_power (allocation_loop ord b comps ! (ord ! j)) = ?f (ord ! j)"
    if "j < k" for j
  proof -
    have jl: "j < length ord" using that k(1) by simp
    have "S (Suc j) \<le> b" using least that jl by force
    then have "S j + ?f (ord ! j) \<le> b" using S_Suc [OF jl] by simp
    then show ?thesis using cur [OF jl] S0 by (auto simp add: min_def max_def)
  qed
  have below: "k = 0 \<or> S k \<le> b"
  proof (cases k)
    case 0
    then show ?thesis by simp
  next
    case (Suc m)
    then have "m < k" "m < length ord" using k(1) by simp_all
    then have "\<not> b < S (Suc m)" using least by blast
    then show ?thesis using Suc by simp
  qed
  have bk: "b < S k + ?f (ord ! k)" using k S_Suc by simp
  have first: "current_power (allocation_loop ord b comps ! (ord ! k)) = b - S k"
    using cur [OF k(1)] below bk S0 by (auto simp add: min_def max_def)
  have rest: "current_power (allocation_loop ord b comps ! (ord ! j)) = 0"
    if "k < j" "j < length ord" for j
  proof -
    have "S (Suc k) \<le> S j" using that(1) by (intro S_mono) simp
    then have "b < S j" using k(2) by simp
    then show ?thesis using cur [OF that(2)] that(1) nn [OF that(2)]
      by (auto simp add: min_def max_def)
  qed
  show ?thesis
    using k(1) served first bk rest unfolding S_def by (intro exI [of _ k]) auto
qed

lemma set_enabled_pointers:
  "set (enabled_pointers comps) = {i. i < length comps \<and> is_enabled (comps ! i)}"
  by (auto simp add: enabled_pointers_def)

lemma distinct_enabled_pointers: "distinct (enabled_pointers comps)"
  by (simp add: enabled_pointers_def)

lemma enabled_components:
  "map ((!) comps) (enabled_pointers comps) = filter is_enabled comps"
proof -
  have "filter is_enabled (map ((!) comps) [0..<length comps])
      = map ((!) comps) (filter (is_enabled \<circ> (!) comps) [0..<length comps])"
    by (rule filter_map)
  then show ?thesis by (simp add: enabled_pointers_def map_nth comp_def)
qed

lemma std_sort_result_distinct:
  "std_sort_result comps (enabled_pointers comps) ord \<Longrightarrow> distinct ord"
  using mset_eq_imp_distinct_iff [of ord "enabled_pointers comps"]
  by (simp add: std_sort_result_def distinct_enabled_pointers)

lemma std_sort_result_set:
  "std_sort_result comps (enabled_pointers comps) ord
   \<Longrightarrow> set ord = {i. i < length comps \<and> is_enabled (comps ! i)}"
  using mset_eq_setD [of ord "enabled_pointers comps"]
  by (simp add: std_sort_result_def set_enabled_pointers)

lemma std_sort_result_sum:
  fixes comps :: "real PowerComponent list"
  assumes "std_sort_result comps (enabled_pointers comps) ord"
  shows "sum_list (map (\<lambda>p. nominal_power (comps ! p)) ord)
           = sum_list (map nominal_power (filter is_enabled comps))"
proof -
  let ?f = "\<lambda>p. nominal_power (comps ! p)"
  have "mset (map ?f ord) = mset (map ?f (enabled_pointers comps))"
    using assms by (simp add: std_sort_result_def)
  then have "sum_list (map ?f ord) = sum_list (map ?f (enabled_pointers comps))"
    by (metis sum_mset_sum_list)
  also have "map ?f (enabled_pointers comps)
      = map nominal_power (map ((!) comps) (enabled_pointers comps))"
    by simp
  finally show ?thesis by (simp only: enabled_components)
qed

lemma std_sort_result_sorted:
  "std_sort_result comps ptrs ord
   \<Longrightarrow> sorted_wrt (\<lambda>a b. priority_value (priority (comps ! a))
                           \<le> priority_value (priority (comps ! b))) ord"
  by (simp add: std_sort_result_def priority_less_def not_less)

subsection \<open>The allocator\<close>

text \<open>
  C3. \<open>allocatePower\<close> walks the enabled components in ascending priority (whatever order
  \<open>std::sort\<close> leaves equal priorities in) with the solar generation as budget, and gives
  each the minimum of its nominal power and the budget that remains, which it then
  subtracts. If the budget covers the sum of the enabled nominal powers, every enabled
  component gets its nominal power; if the budget is 0, every enabled component gets 0; if
  the budget is short, the components before some position of the walk are fully served,
  the one at that position gets the remainder, less than its nominal power, and the ones
  after it get 0. Disabled components and all other fields are left as they were. Nominal
  powers are taken to be non-negative, as they are in the catalog.
\<close>

theorem allocatePower_greedy:
  assumes srt: "std_sort_result (components s) (enabled_pointers (components s)) ord"
    and nominal: "\<forall>c \<in> set (components s). 0 \<le> nominal_power c"
  shows "set ord = {i. i < length (components s) \<and> is_enabled (components s ! i)}
     \<and> distinct ord
     \<and> sorted_wrt (\<lambda>a b. priority_value (priority (components s ! a))
                          \<le> priority_value (priority (components s ! b))) ord
     \<and> (\<forall>k < length ord.
           current_power (components (allocatePower ord s) ! (ord ! k))
             = min (nominal_power (components s ! (ord ! k)))
                   (remaining_power (components s) (take k ord) (solar_generation (energy_state s)))
         \<and> remaining_power (components s) (take (Suc k) ord) (solar_generation (energy_state s))
             = remaining_power (components s) (take k ord) (solar_generation (energy_state s))
               - current_power (components (allocatePower ord s) ! (ord ! k)))
     \<and> (sum_list (map nominal_power (filter is_enabled (components s)))
           \<le> solar_generation (energy_state s)
         \<longrightarrow> (\<forall>i < length (components s). is_enabled (components s ! i)
               \<longrightarrow> current_power (components (allocatePower ord s) ! i)
                     = nominal_power (components s ! i)))
     \<and> (solar_generation (energy_state s) = 0
         \<longrightarrow> (\<forall>i < length (components s). is_enabled (components s ! i)
               \<longrightarrow> current_power (components (allocatePower ord s) ! i) = 0))
     \<and> (solar_generation (energy_state s)
           < sum_list (map nominal_power (filter is_enabled (components s))) \<and> ord \<noteq> []
         \<longrightarrow> (\<exists>k < length ord.
               (\<forall>j < k. current_power (components (allocatePower ord s) ! (ord ! j))
                          = nominal_power (components s ! (ord ! j)))
             \<and> current_power (components (allocatePower ord s) ! (ord ! k))
                 = solar_generation (energy_state s)
                   - sum_list (map (\<lambda>p. nominal_power (components s ! p)) (take k ord))
             \<and> current_power (components (allocatePower ord s) ! (ord ! k))
                 < nominal_power (components s ! (ord ! k))
             \<and> (\<forall>j. k < j \<and> j < length ord
                    \<longrightarrow> current_power (components (allocatePower ord s) ! (ord ! j)) = 0)))
     \<and> (\<forall>i < length (components s). \<not> is_enabled (components s ! i)
           \<longrightarrow> components (allocatePower ord s) ! i = components s ! i)
     \<and> map (\<lambda>c. c\<lparr>current_power := 0\<rparr>) (components (allocatePower ord s))
         = map (\<lambda>c. c\<lparr>current_power := 0\<rparr>) (components s)
     \<and> energy_state (allocatePower ord s) = energy_state s
     \<and> current_mode (allocatePower ord s) = current_mode s
     \<and> emitted (allocatePower ord s) = emitted s"
proof -
  let ?comps = "components s"
  let ?b = "solar_generation (energy_state s)"
  have res: "components (allocatePower ord s) = allocation_loop ord ?b ?comps"
    by (simp add: allocatePower_def)
  have d: "distinct ord" using srt by (rule std_sort_result_distinct)
  have st: "set ord = {i. i < length ?comps \<and> is_enabled (?comps ! i)}"
    using srt by (rule std_sort_result_set)
  have r: "\<forall>p \<in> set ord. p < length ?comps" using st by simp
  have n: "\<forall>p \<in> set ord. 0 \<le> nominal_power (?comps ! p)"
    using nominal r by simp
  have total: "sum_list (map (\<lambda>p. nominal_power (?comps ! p)) ord)
      = sum_list (map nominal_power (filter is_enabled ?comps))"
    using srt by (rule std_sort_result_sum)
  have idx: "\<exists>k < length ord. ord ! k = i" if "i < length ?comps" "is_enabled (?comps ! i)" for i
  proof -
    have "i \<in> set ord" using st that by simp
    then show ?thesis by (simp add: in_set_conv_nth)
  qed
  have srtd: "sorted_wrt (\<lambda>a b. priority_value (priority (?comps ! a))
                          \<le> priority_value (priority (?comps ! b))) ord"
    using srt by (rule std_sort_result_sorted)
  have greedy: "\<forall>k < length ord.
           current_power (components (allocatePower ord s) ! (ord ! k))
             = min (nominal_power (?comps ! (ord ! k))) (remaining_power ?comps (take k ord) ?b)
         \<and> remaining_power ?comps (take (Suc k) ord) ?b
             = remaining_power ?comps (take k ord) ?b
               - current_power (components (allocatePower ord s) ! (ord ! k))"
  proof (intro allI impI conjI)
    fix k assume k: "k < length ord"
    show a: "current_power (components (allocatePower ord s) ! (ord ! k))
        = min (nominal_power (?comps ! (ord ! k))) (remaining_power ?comps (take k ord) ?b)"
      unfolding res using d r k by (rule assigned_at_index)
    show "remaining_power ?comps (take (Suc k) ord) ?b
        = remaining_power ?comps (take k ord) ?b
          - current_power (components (allocatePower ord s) ! (ord ! k))"
      unfolding a using k by (rule remaining_power_step)
  qed
  have enough: "sum_list (map nominal_power (filter is_enabled ?comps)) \<le> ?b
         \<longrightarrow> (\<forall>i < length ?comps. is_enabled (?comps ! i)
               \<longrightarrow> current_power (components (allocatePower ord s) ! i)
                     = nominal_power (?comps ! i))"
  proof (intro allI impI)
    fix i
    assume a: "sum_list (map nominal_power (filter is_enabled ?comps)) \<le> ?b"
      "i < length ?comps" "is_enabled (?comps ! i)"
    obtain k where k: "k < length ord" "ord ! k = i" using idx a(2,3) by blast
    have "sum_list (map (\<lambda>p. nominal_power (?comps ! p)) ord) \<le> ?b"
      using a(1) by (simp only: total)
    from budget_covers_all [OF d r n this k(1)]
    show "current_power (components (allocatePower ord s) ! i) = nominal_power (?comps ! i)"
      by (simp only: res k(2))
  qed
  have none_left: "?b = 0
         \<longrightarrow> (\<forall>i < length ?comps. is_enabled (?comps ! i)
               \<longrightarrow> current_power (components (allocatePower ord s) ! i) = 0)"
  proof (intro allI impI)
    fix i
    assume a: "?b = 0" "i < length ?comps" "is_enabled (?comps ! i)"
    obtain k where k: "k < length ord" "ord ! k = i" using idx a(2,3) by blast
    from budget_zero [OF d r n k(1)]
    show "current_power (components (allocatePower ord s) ! i) = 0"
      by (simp only: res k(2) a(1))
  qed
  have too_little: "?b < sum_list (map nominal_power (filter is_enabled ?comps)) \<and> ord \<noteq> []
         \<longrightarrow> (\<exists>k < length ord.
               (\<forall>j < k. current_power (components (allocatePower ord s) ! (ord ! j))
                          = nominal_power (?comps ! (ord ! j)))
             \<and> current_power (components (allocatePower ord s) ! (ord ! k))
                 = ?b - sum_list (map (\<lambda>p. nominal_power (?comps ! p)) (take k ord))
             \<and> current_power (components (allocatePower ord s) ! (ord ! k))
                 < nominal_power (?comps ! (ord ! k))
             \<and> (\<forall>j. k < j \<and> j < length ord
                    \<longrightarrow> current_power (components (allocatePower ord s) ! (ord ! j)) = 0))"
  proof (intro impI, elim conjE)
    assume a: "?b < sum_list (map nominal_power (filter is_enabled ?comps))" "ord \<noteq> []"
    have "?b < sum_list (map (\<lambda>p. nominal_power (?comps ! p)) ord)"
      using a(1) by (simp only: total)
    from budget_short [OF d r n this a(2)]
    show "\<exists>k < length ord.
               (\<forall>j < k. current_power (components (allocatePower ord s) ! (ord ! j))
                          = nominal_power (?comps ! (ord ! j)))
             \<and> current_power (components (allocatePower ord s) ! (ord ! k))
                 = ?b - sum_list (map (\<lambda>p. nominal_power (?comps ! p)) (take k ord))
             \<and> current_power (components (allocatePower ord s) ! (ord ! k))
                 < nominal_power (?comps ! (ord ! k))
             \<and> (\<forall>j. k < j \<and> j < length ord
                    \<longrightarrow> current_power (components (allocatePower ord s) ! (ord ! j)) = 0)"
      by (simp only: res)
  qed
  have untouched: "\<forall>i < length ?comps. \<not> is_enabled (?comps ! i)
           \<longrightarrow> components (allocatePower ord s) ! i = ?comps ! i"
  proof (intro allI impI)
    fix i assume "i < length ?comps" "\<not> is_enabled (?comps ! i)"
    then have "i \<notin> set ord" using st by simp
    then show "components (allocatePower ord s) ! i = ?comps ! i"
      unfolding res by (rule allocation_loop_untouched)
  qed
  have fields: "map (\<lambda>c. c\<lparr>current_power := 0\<rparr>) (components (allocatePower ord s))
         = map (\<lambda>c. c\<lparr>current_power := 0\<rparr>) ?comps"
    by (simp only: res allocation_loop_other_fields)
  have f1: "energy_state (allocatePower ord s) = energy_state s"
    and f2: "current_mode (allocatePower ord s) = current_mode s"
    and f3: "emitted (allocatePower ord s) = emitted s"
    by (simp_all add: allocatePower_def)
  show ?thesis
    by (intro conjI) (fact st d srtd greedy enough none_left too_little untouched fields f1 f2 f3)+
qed

theorem allocatePower_greedy_witness:
  "std_sort_result (components (solarCallback 50 initial_manager))
     (enabled_pointers (components (solarCallback 50 initial_manager))) [0, 1, 2, 3, 4, 5, 7, 6]
   \<and> list_all (\<lambda>c. 0 \<le> nominal_power c) (components (solarCallback 50 initial_manager))
   \<and> distinct [0, 1, 2, 3, 4, 5, 7, 6 :: nat]
   \<and> map current_power
        (components (allocatePower [0, 1, 2, 3, 4, 5, 7, 6] (solarCallback 50 initial_manager)))
       = [15, 5, 25, 5, 0, 0, 0, 0]"
proof -
  have h1: "std_sort_result (components (solarCallback 50 initial_manager))
     (enabled_pointers (components (solarCallback 50 initial_manager))) [0, 1, 2, 3, 4, 5, 7, 6]"
    by code_simp
  have h2: "\<forall>c \<in> set (components (solarCallback 50 initial_manager)). 0 \<le> nominal_power c"
    by code_simp
  have h3: "map current_power
        (components (allocatePower [0, 1, 2, 3, 4, 5, 7, 6] (solarCallback 50 initial_manager)))
       = [15, 5, 25, 5, 0, 0, 0, 0]"
    by code_simp
  from allocatePower_greedy [OF h1 h2] have "distinct [0, 1, 2, 3, 4, 5, 7, 6 :: nat]"
    by (elim conjE)
  with h1 h2 h3 show ?thesis by (simp only: list_all_iff)
qed

subsection \<open>The order of the walk\<close>









subsection \<open>Invariants of the registry\<close>

lemma catalog_fields_adjust: "catalog_fields (adjust_component m c) = catalog_fields c"
  by (cases m) (simp_all add: catalog_fields_def Let_def)

lemma catalog_registry_adjust:
  "catalog_registry (adjustComponentsForMode m comps) = catalog_registry comps"
  by (simp add: catalog_registry_def adjustComponentsForMode_def catalog_fields_adjust comp_def)

lemma catalog_fields_power: "catalog_fields (c\<lparr>current_power := v\<rparr>) = catalog_fields c"
  by (simp add: catalog_fields_def)

lemma catalog_registry_power:
  assumes "map (\<lambda>c. c\<lparr>current_power := 0\<rparr>) xs = map (\<lambda>c. c\<lparr>current_power := 0\<rparr>) ys"
  shows "catalog_registry xs = catalog_registry ys"
proof -
  have "map catalog_fields zs = map catalog_fields (map (\<lambda>c. c\<lparr>current_power := 0\<rparr>) zs)" for zs
    by (simp add: comp_def catalog_fields_power)
  then have "map catalog_fields xs = map catalog_fields ys"
    using assms by metis
  then show ?thesis by (simp add: catalog_registry_def)
qed

lemma is_enabled_power:
  assumes "map (\<lambda>c. c\<lparr>current_power := 0\<rparr>) xs = map (\<lambda>c. c\<lparr>current_power := 0\<rparr>) ys"
  shows "(\<forall>c \<in> set xs. priority c = CRITICAL \<longrightarrow> is_enabled c)
       = (\<forall>c \<in> set ys. priority c = CRITICAL \<longrightarrow> is_enabled c)"
proof -
  have "(\<forall>c \<in> set zs. priority c = CRITICAL \<longrightarrow> is_enabled c)
      = (\<forall>c \<in> set (map (\<lambda>c. c\<lparr>current_power := 0\<rparr>) zs). priority c = CRITICAL \<longrightarrow> is_enabled c)" for zs
    by simp
  then show ?thesis using assms by metis
qed

lemma set_motor_power_other_fields:
  "map (\<lambda>c. c\<lparr>current_power := 0\<rparr>) (set_motor_power v comps)
     = map (\<lambda>c. c\<lparr>current_power := 0\<rparr>) comps"
  by (induction comps) simp_all

lemma catalog_member:
  assumes "catalog_registry comps" and "c \<in> set comps"
  shows "catalog_fields c \<in> set (map catalog_fields initializeComponents)"
proof -
  have "catalog_fields c \<in> set (map catalog_fields comps)" using assms(2) by simp
  then show ?thesis using assms(1) by (simp only: catalog_registry_def)
qed

lemma catalog_cameras_not_critical:
  assumes "catalog_registry comps" and "c \<in> set comps" and "name c = ''cameras''"
  shows "priority c \<noteq> CRITICAL"
  using catalog_member [OF assms(1,2)] assms(3)
  by (auto simp add: catalog_fields_def initializeComponents_def mk_component_def)


lemma critical_enabled_adjust:
  assumes "catalog_registry comps"
    and "\<forall>c \<in> set comps. priority c = CRITICAL \<longrightarrow> is_enabled c"
  shows "\<forall>c \<in> set (adjustComponentsForMode m comps). priority c = CRITICAL \<longrightarrow> is_enabled c"
proof -
  have "priority (adjust_component m c) = CRITICAL \<longrightarrow> is_enabled (adjust_component m c)"
    if "c \<in> set comps" for c
    using assms(2) that catalog_cameras_not_critical [OF assms(1) that]
    by (cases m) (auto simp add: Let_def)
  then show ?thesis by (simp add: adjustComponentsForMode_def)
qed

lemma critical_inv_switchMode:
  assumes "critical_inv s"
  shows "critical_inv (switchMode m s)"
  using assms critical_enabled_adjust [of "components s" m]
  by (simp add: critical_inv_def switchMode_def catalog_registry_adjust)

lemma critical_inv_pre_allocation: "critical_inv s \<Longrightarrow> critical_inv (pre_allocation s)"
proof -
  assume a: "critical_inv s"
  have "critical_inv (updatePowerConsumption s)"
    using a by (simp add: critical_inv_def updatePowerConsumption_def)
  then show ?thesis
    by (simp add: pre_allocation_def Let_def critical_inv_switchMode)
qed

lemma critical_inv_same_but_power:
  assumes "map (\<lambda>c. c\<lparr>current_power := 0\<rparr>) (components s')
         = map (\<lambda>c. c\<lparr>current_power := 0\<rparr>) (components s)"
  shows "critical_inv s' = critical_inv s"
  unfolding critical_inv_def
  using catalog_registry_power [OF assms] is_enabled_power [OF assms] by simp

lemma critical_inv_step: "critical_inv s \<Longrightarrow> critical_inv (step c s)"
proof (cases c)
  case (BatteryMessage v)
  assume "critical_inv s"
  then show ?thesis by (simp add: BatteryMessage critical_inv_def batteryCallback_def Let_def)
next
  case (SolarMessage w)
  assume "critical_inv s"
  then show ?thesis by (simp add: SolarMessage critical_inv_def solarCallback_def)
next
  case (TwistMessage lx az)
  assume a: "critical_inv s"
  have "critical_inv (velocityCallback lx az s) = critical_inv s"
    by (rule critical_inv_same_but_power)
      (simp add: velocityCallback_def Let_def set_motor_power_other_fields)
  with a show ?thesis by (simp add: TwistMessage)
next
  case (ManagementTimer ord)
  assume a: "critical_inv s"
  have "critical_inv (allocatePower ord (pre_allocation s)) = critical_inv (pre_allocation s)"
    by (rule critical_inv_same_but_power)
      (simp add: allocatePower_def allocation_loop_other_fields)
  then have "critical_inv (allocatePower ord (pre_allocation s))"
    using critical_inv_pre_allocation [OF a] by simp
  then show ?thesis
    by (simp add: ManagementTimer managementLoop_def Let_def critical_inv_def)
next
  case PredictionTimer
  assume "critical_inv s"
  then show ?thesis by (simp add: PredictionTimer critical_inv_def predictionLoop_def)
next
  case (SetModeCall m)
  assume "critical_inv s"
  then show ?thesis by (simp add: SetModeCall setMode_def critical_inv_switchMode)
qed

lemma critical_inv_run: "critical_inv s \<Longrightarrow> critical_inv (run cs s)"
  by (induction cs arbitrary: s) (simp_all add: critical_inv_step)

lemma critical_inv_initial: "critical_inv initial_manager"
  by (simp add: critical_inv_def catalog_registry_def initial_manager_def
      initializeComponents_def mk_component_def)

text \<open>
  C10. After construction and any sequence of calls (telemetry messages, management
  ticks with any walk order, prediction ticks, \<open>setMode\<close> requests) every component of
  CRITICAL priority is enabled, and names and priorities are those of the catalog, in
  which communication and fdir_watchdog are the CRITICAL components.
\<close>

theorem critical_always_enabled:
  "(\<forall>c \<in> set (components (run cs initial_manager)). priority c = CRITICAL \<longrightarrow> is_enabled c)
   \<and> map (\<lambda>c. (name c, priority c)) (components (run cs initial_manager))
       = map (\<lambda>c. (name c, priority c)) initializeComponents"
proof -
  have inv: "critical_inv (run cs initial_manager)"
    using critical_inv_initial by (rule critical_inv_run)
  then have "map catalog_fields (components (run cs initial_manager))
      = map catalog_fields initializeComponents"
    by (simp add: critical_inv_def catalog_registry_def)
  then have "map (\<lambda>t. (fst t, fst (snd t))) (map catalog_fields (components (run cs initial_manager)))
      = map (\<lambda>t. (fst t, fst (snd t))) (map catalog_fields initializeComponents)"
    by simp
  then have "map (\<lambda>c. (name c, priority c)) (components (run cs initial_manager))
       = map (\<lambda>c. (name c, priority c)) initializeComponents"
    by (simp add: comp_def catalog_fields_def)
  with inv show ?thesis by (simp add: critical_inv_def)
qed

theorem critical_always_enabled_witness:
  "map is_enabled (components (run
       [SolarMessage 10, ManagementTimer [1, 0, 2, 3, 4, 7], BatteryMessage 24,
        ManagementTimer [0, 1], TwistMessage 2 0, SetModeCall HIBERNATION] initial_manager))
     = [True, True, False, False, False, False, False, False]
   \<and> map priority (components (run
       [SolarMessage 10, ManagementTimer [1, 0, 2, 3, 4, 7], BatteryMessage 24,
        ManagementTimer [0, 1], TwistMessage 2 0, SetModeCall HIBERNATION] initial_manager))
     = [CRITICAL, CRITICAL, HIGH, HIGH, MEDIUM, MEDIUM, LOW, MEDIUM]"
proof -
  have e: "map is_enabled (components (run
       [SolarMessage 10, ManagementTimer [1, 0, 2, 3, 4, 7], BatteryMessage 24,
        ManagementTimer [0, 1], TwistMessage 2 0, SetModeCall HIBERNATION] initial_manager))
     = [True, True, False, False, False, False, False, False]"
    by code_simp
  from critical_always_enabled [of "[SolarMessage 10, ManagementTimer [1, 0, 2, 3, 4, 7],
        BatteryMessage 24, ManagementTimer [0, 1], TwistMessage 2 0, SetModeCall HIBERNATION]"]
  have "map (\<lambda>c. (name c, priority c)) (components (run
       [SolarMessage 10, ManagementTimer [1, 0, 2, 3, 4, 7], BatteryMessage 24,
        ManagementTimer [0, 1], TwistMessage 2 0, SetModeCall HIBERNATION] initial_manager))
       = map (\<lambda>c. (name c, priority c)) initializeComponents"
    by (elim conjE)
  then have "map snd (map (\<lambda>c. (name c, priority c)) (components (run
       [SolarMessage 10, ManagementTimer [1, 0, 2, 3, 4, 7], BatteryMessage 24,
        ManagementTimer [0, 1], TwistMessage 2 0, SetModeCall HIBERNATION] initial_manager)))
       = map snd (map (\<lambda>c. (name c, priority c)) initializeComponents)"
    by simp
  then have "map priority (components (run
       [SolarMessage 10, ManagementTimer [1, 0, 2, 3, 4, 7], BatteryMessage 24,
        ManagementTimer [0, 1], TwistMessage 2 0, SetModeCall HIBERNATION] initial_manager))
     = [CRITICAL, CRITICAL, HIGH, HIGH, MEDIUM, MEDIUM, LOW, MEDIUM]"
    by (simp add: comp_def initializeComponents_def mk_component_def)
  with e show ?thesis by (intro conjI)
qed

subsection \<open>Bounds on the assigned power\<close>



lemma is_enabled_pointer_write:
  "is_enabled (comps[p := (comps ! p)\<lparr>current_power := v\<rparr>] ! i) = is_enabled (comps ! i)"
proof (cases "p < length comps")
  case True
  then show ?thesis by (cases "i = p") simp_all
next
  case False
  then have "length comps \<le> p" by simp
  then show ?thesis by (simp only: list_update_beyond)
qed








lemma solar_generation_pre_allocation:
  "solar_generation (energy_state (pre_allocation s)) = solar_generation (energy_state s)"
  by (simp add: pre_allocation_def Let_def switchMode_def updatePowerConsumption_def)









section \<open>Properties of the binary32 program\<close>

subsection \<open>Rounding and special values\<close>

lemma round32_not_NaN [simp]: "round32 x \<noteq> NaN"
  by (simp add: round32_def overflow_def)

lemma round_even_nonneg: "0 \<le> r \<Longrightarrow> 0 \<le> round_even r"
  by (simp add: round_even_def Let_def)

lemma nearest32_nonneg:
  assumes "0 \<le> x"
  shows "0 \<le> nearest32 x"
  unfolding nearest32_def Let_def
  using assms by (intro mult_nonneg_nonneg) (simp_all add: round_even_nonneg)

lemma round32_nonneg:
  assumes "0 \<le> x"
  shows "fle (Finite 0) (round32 x)"
  using assms nearest32_nonneg [OF assms]
  by (simp add: round32_def overflow_def not_less)


lemma two_powi_Suc: "(2::real) powi (k + 1) = 2 * 2 powi k"
  by (simp add: power_int_add)

lemma binade_up_spec:
  assumes "1 \<le> a" and "a < 2 ^ (n + 1)"
  shows "e \<le> binade_up a e n \<and> binade_up a e n \<le> e + int n
       \<and> 2 powi (binade_up a e n - e) \<le> a \<and> a < 2 powi (binade_up a e n - e + 1)"
  using assms
proof (induction n arbitrary: a e)
  case 0
  then show ?case by simp
next
  case (Suc n)
  show ?case
  proof (cases "a < 2")
    case True
    with Suc.prems show ?thesis by simp
  next
    case False
    then have h: "1 \<le> a / 2" "a / 2 < 2 ^ (n + 1)" using Suc.prems by simp_all
    let ?e = "binade_up (a / 2) (e + 1) n"
    from Suc.IH [OF h, of "e + 1"]
    have ih: "e + 1 \<le> ?e" "?e \<le> e + 1 + int n"
      "2 powi (?e - (e + 1)) \<le> a / 2" "a / 2 < 2 powi (?e - (e + 1) + 1)"
      by simp_all
    have "(2::real) powi (?e - e) = 2 * 2 powi (?e - (e + 1))"
      using two_powi_Suc [of "?e - (e + 1)"] by (simp add: algebra_simps)
    moreover have "(2::real) powi (?e - e + 1) = 2 * 2 powi (?e - (e + 1) + 1)"
      using two_powi_Suc [of "?e - (e + 1) + 1"] by (simp add: algebra_simps)
    ultimately show ?thesis using False ih by simp
  qed
qed

lemma binade_down_spec:
  assumes "0 \<le> a" and "a < 2"
  shows "e - int n \<le> binade_down a e n \<and> binade_down a e n \<le> e
       \<and> a < 2 powi (binade_down a e n - e + 1)
       \<and> (e - int n < binade_down a e n \<longrightarrow> 2 powi (binade_down a e n - e) \<le> a)"
  using assms
proof (induction n arbitrary: a e)
  case 0
  then show ?case by simp
next
  case (Suc n)
  show ?case
  proof (cases "1 \<le> a")
    case True
    with Suc.prems show ?thesis by simp
  next
    case False
    then have h: "0 \<le> a * 2" "a * 2 < 2" using Suc.prems by simp_all
    let ?e = "binade_down (a * 2) (e - 1) n"
    from Suc.IH [OF h, of "e - 1"]
    have ih: "e - 1 - int n \<le> ?e" "?e \<le> e - 1"
      "a * 2 < 2 powi (?e - (e - 1) + 1)"
      "e - 1 - int n < ?e \<longrightarrow> 2 powi (?e - (e - 1)) \<le> a * 2"
      by simp_all
    have "(2::real) powi (?e - (e - 1) + 1) = 2 * 2 powi (?e - e + 1)"
      using two_powi_Suc [of "?e - e + 1"] by (simp add: algebra_simps)
    moreover have "(2::real) powi (?e - (e - 1)) = 2 * 2 powi (?e - e)"
      using two_powi_Suc [of "?e - e"] by (simp add: algebra_simps)
    ultimately show ?thesis using False ih by simp
  qed
qed

lemma binade_spec:
  assumes "0 \<le> a" and "a < 2 powi 128"
  shows "- 126 \<le> binade a" and "binade a \<le> 127" and "a < 2 powi (binade a + 1)"
    and "- 126 < binade a \<Longrightarrow> 2 powi (binade a) \<le> a"
proof -
  have all: "- 126 \<le> binade a \<and> binade a \<le> 127 \<and> a < 2 powi (binade a + 1)
      \<and> (- 126 < binade a \<longrightarrow> 2 powi (binade a) \<le> a)"
  proof (cases "1 \<le> a")
    case True
    have "a < 2 ^ (127 + 1)" using assms(2) by simp
    from binade_up_spec [OF True this, of 0] True show ?thesis
      by (simp add: binade_def)
  next
    case False
    then have "a < 2" by simp
    from binade_down_spec [OF assms(1) this, of 0 126] False show ?thesis
      by (simp add: binade_def)
  qed
  then show "- 126 \<le> binade a" "binade a \<le> 127" "a < 2 powi (binade a + 1)"
    "- 126 < binade a \<Longrightarrow> 2 powi (binade a) \<le> a"
    by simp_all
qed


lemma round_even_of_int [simp]: "round_even (of_int m) = m"
  by (simp add: round_even_def)

lemma round_even_floor: "\<lfloor>r\<rfloor> \<le> round_even r" "round_even r \<le> \<lfloor>r\<rfloor> + 1"
  by (simp_all add: round_even_def Let_def)

lemma round_even_mono:
  assumes "r \<le> s"
  shows "round_even r \<le> round_even s"
proof (cases "\<lfloor>r\<rfloor> = \<lfloor>s\<rfloor>")
  case True
  then have "r - of_int \<lfloor>r\<rfloor> \<le> s - of_int \<lfloor>s\<rfloor>" using assms by simp
  with True show ?thesis by (auto simp add: round_even_def Let_def)
next
  case False
  moreover have "\<lfloor>r\<rfloor> \<le> \<lfloor>s\<rfloor>" using assms by (rule floor_mono)
  ultimately have "\<lfloor>r\<rfloor> + 1 \<le> \<lfloor>s\<rfloor>" by simp
  with round_even_floor(2) [of r] round_even_floor(1) [of s] show ?thesis by linarith
qed

lemma round_even_minus: "round_even (- r) = - round_even r"
proof (cases "r = of_int \<lfloor>r\<rfloor>")
  case True
  then have "round_even (- r) = round_even (of_int (- \<lfloor>r\<rfloor>))" by simp
  also have "\<dots> = - \<lfloor>r\<rfloor>" by (rule round_even_of_int)
  also have "\<dots> = - round_even (of_int \<lfloor>r\<rfloor>)" by simp
  finally show ?thesis using True by simp
next
  case False
  then have fl: "\<lfloor>- r\<rfloor> = - \<lfloor>r\<rfloor> - 1"
    by (metis ceiling_altdef floor_minus add_diff_cancel_right' minus_diff_eq
        uminus_add_conv_diff)
  have "0 < r - of_int \<lfloor>r\<rfloor>" using False by linarith
  moreover have "r - of_int \<lfloor>r\<rfloor> < 1" by linarith
  ultimately show ?thesis
    by (auto simp add: round_even_def Let_def fl)
qed


lemma nearest32_minus: "nearest32 (- x) = - nearest32 x"
  by (simp add: nearest32_def Let_def round_even_minus)

lemma ulp_times:
  "(2::real) powi (k - 23) * 2 ^ 24 = 2 powi (k + 1)"
  "(2::real) powi (k - 23) * 2 ^ 23 = 2 powi k"
proof -
  have "(2::real) powi ((k - 23) + 24) = 2 powi (k - 23) * 2 powi 24"
    by (rule power_int_add) simp
  then show "(2::real) powi (k - 23) * 2 ^ 24 = 2 powi (k + 1)"
    by (simp add: algebra_simps)
  have "(2::real) powi ((k - 23) + 23) = 2 powi (k - 23) * 2 powi 23"
    by (rule power_int_add) simp
  then show "(2::real) powi (k - 23) * 2 ^ 23 = 2 powi k"
    by (simp add: algebra_simps)
qed

lemma nearest32_upper:
  assumes "0 \<le> x" and "x < 2 powi 128"
  shows "nearest32 x \<le> 2 powi (binade x + 1)"
proof -
  let ?u = "(2::real) powi (binade x - 23)"
  have u: "0 < ?u" by simp
  have "2 powi (binade x + 1) = ?u * 2 ^ 24"
    by (simp only: ulp_times)
  moreover have "x < 2 powi (binade x + 1)" using assms by (rule binade_spec)
  ultimately have "x / ?u \<le> of_int (2 ^ 24)"
    using u by (simp add: pos_divide_le_eq mult.commute)
  then have "round_even (x / ?u) \<le> round_even (of_int (2 ^ 24))"
    by (rule round_even_mono)
  then have "of_int (round_even (x / ?u)) \<le> (2::real) ^ 24"
    by (simp only: round_even_of_int) (metis of_int_le_iff of_int_numeral of_int_power)
  then have "?u * of_int (round_even (x / ?u)) \<le> ?u * 2 ^ 24"
    using u by (simp only: mult_le_cancel_left_pos)
  also have "\<dots> = 2 powi (binade x + 1)"
    by (simp only: ulp_times)
  finally show ?thesis using assms(1) by (simp add: nearest32_def Let_def)
qed

lemma nearest32_lower:
  assumes "0 \<le> x" and "x < 2 powi 128" and "- 126 < binade x"
  shows "2 powi (binade x) \<le> nearest32 x"
proof -
  let ?u = "(2::real) powi (binade x - 23)"
  have u: "0 < ?u" by simp
  have eq: "2 powi (binade x) = ?u * 2 ^ 23"
    by (simp only: ulp_times)
  moreover have "2 powi (binade x) \<le> x" using assms by (rule binade_spec)
  ultimately have "of_int (2 ^ 23) \<le> x / ?u"
    using u by (simp add: pos_le_divide_eq mult.commute)
  then have "round_even (of_int (2 ^ 23)) \<le> round_even (x / ?u)"
    by (rule round_even_mono)
  then have "(2::real) ^ 23 \<le> of_int (round_even (x / ?u))"
    by (simp only: round_even_of_int) (metis of_int_le_iff of_int_numeral of_int_power)
  then have "?u * 2 ^ 23 \<le> ?u * of_int (round_even (x / ?u))"
    using u by (simp only: mult_le_cancel_left_pos)
  then show ?thesis using assms(1) eq by (simp add: nearest32_def Let_def)
qed

lemma binade_mono:
  assumes "0 \<le> x" and "x \<le> y" and "y < 2 powi 128"
  shows "binade x \<le> binade y"
proof (rule ccontr)
  assume "\<not> binade x \<le> binade y"
  then have lt: "binade y + 1 \<le> binade x" by simp
  have x128: "x < 2 powi 128" and y0: "0 \<le> y" using assms by simp_all
  have "- 126 \<le> binade y" using y0 assms(3) by (rule binade_spec)
  then have "- 126 < binade x" using lt by simp
  then have "2 powi (binade x) \<le> x" using binade_spec(4) [OF assms(1) x128] by simp
  moreover have "y < 2 powi (binade y + 1)" using y0 assms(3) by (rule binade_spec)
  moreover have "(2::real) powi (binade y + 1) \<le> 2 powi (binade x)"
    using lt by (intro power_int_increasing) simp_all
  ultimately show False using assms(2) by linarith
qed

lemma nearest32_mono_nonneg:
  assumes "0 \<le> x" and "x \<le> y" and "y < 2 powi 128"
  shows "nearest32 x \<le> nearest32 y"
proof (cases "binade x = binade y")
  case True
  let ?u = "(2::real) powi (binade y - 23)"
  have u: "0 < ?u" by simp
  have "x / ?u \<le> y / ?u" using assms(2) u by (simp add: divide_right_mono)
  then have "round_even (x / ?u) \<le> round_even (y / ?u)" by (rule round_even_mono)
  then have "?u * of_int (round_even (x / ?u)) \<le> ?u * of_int (round_even (y / ?u))"
    using u by simp
  then show ?thesis
    using assms(1,2) True by (simp add: nearest32_def Let_def)
next
  case False
  have x128: "x < 2 powi 128" and y0: "0 \<le> y" using assms by simp_all
  have "binade x \<le> binade y" using assms by (rule binade_mono)
  with False have lt: "binade x + 1 \<le> binade y" by simp
  have "- 126 \<le> binade x" using assms(1) x128 by (rule binade_spec)
  then have "- 126 < binade y" using lt by simp
  then have "2 powi (binade y) \<le> nearest32 y"
    using nearest32_lower [OF y0 assms(3)] by simp
  moreover have "nearest32 x \<le> 2 powi (binade x + 1)"
    using assms(1) x128 by (rule nearest32_upper)
  moreover have "(2::real) powi (binade x + 1) \<le> 2 powi (binade y)"
    using lt by (intro power_int_increasing) simp_all
  ultimately show ?thesis by linarith
qed

lemma nearest32_mono:
  assumes "x \<le> y" and "\<bar>x\<bar> < 2 powi 128" and "\<bar>y\<bar> < 2 powi 128"
  shows "nearest32 x \<le> nearest32 y"
proof -
  consider "0 \<le> x" | "x < 0" "0 \<le> y" | "y < 0" by linarith
  then show ?thesis
  proof cases
    case 1
    then show ?thesis using assms by (intro nearest32_mono_nonneg) simp_all
  next
    case 2
    have "0 \<le> nearest32 (- x)" using 2(1) by (intro nearest32_nonneg) simp
    then have "nearest32 x \<le> 0" by (simp add: nearest32_minus)
    moreover have "0 \<le> nearest32 y" using 2(2) by (rule nearest32_nonneg)
    ultimately show ?thesis by simp
  next
    case 3
    have "nearest32 (- y) \<le> nearest32 (- x)"
      using 3 assms by (intro nearest32_mono_nonneg) simp_all
    then show ?thesis by (simp add: nearest32_minus)
  qed
qed

lemma nearest32_bounded:
  assumes "\<bar>x\<bar> < 2 powi 128"
  shows "\<bar>nearest32 x\<bar> \<le> 2 powi 128"
proof -
  have pos: "nearest32 a \<le> 2 powi 128 \<and> 0 \<le> nearest32 a"
    if "0 \<le> a" "a < 2 powi 128" for a
  proof -
    have "nearest32 a \<le> 2 powi (binade a + 1)" using that by (rule nearest32_upper)
    moreover have "binade a \<le> 127" using that by (rule binade_spec)
    then have "(2::real) powi (binade a + 1) \<le> 2 powi 128"
      by (intro power_int_increasing) simp_all
    ultimately show ?thesis using nearest32_nonneg [OF that(1)] by simp
  qed
  show ?thesis
  proof (cases "0 \<le> x")
    case True
    with pos [of x] assms show ?thesis by simp
  next
    case False
    with pos [of "- x"] assms show ?thesis by (simp add: nearest32_minus)
  qed
qed

lemma overflow_mono:
  assumes "r \<le> s"
  shows "fle (overflow r) (overflow s)"
  using assms by (auto simp add: overflow_def)

lemma round32_mono:
  assumes "x \<le> y"
  shows "fle (round32 x) (round32 y)"
proof -
  define T where "T z = (if 2 powi 128 \<le> \<bar>z\<bar> then z else nearest32 z)" for z
  have r: "round32 z = overflow (T z)" for z
    by (simp add: round32_def T_def)
  have "T x \<le> T y"
  proof (cases "2 powi 128 \<le> \<bar>x\<bar>")
    case bx: True
    show ?thesis
    proof (cases "2 powi 128 \<le> \<bar>y\<bar>")
      case True
      with bx assms show ?thesis by (simp add: T_def)
    next
      case False
      then have "\<bar>nearest32 y\<bar> \<le> 2 powi 128" by (intro nearest32_bounded) simp
      with bx False assms show ?thesis by (simp add: T_def) linarith
    qed
  next
    case sx: False
    show ?thesis
    proof (cases "2 powi 128 \<le> \<bar>y\<bar>")
      case True
      from sx have "\<bar>nearest32 x\<bar> \<le> 2 powi 128" by (intro nearest32_bounded) simp
      with sx True assms show ?thesis by (simp add: T_def) linarith
    next
      case False
      with sx assms have "nearest32 x \<le> nearest32 y" by (intro nearest32_mono) simp_all
      with sx False show ?thesis by (simp add: T_def)
    qed
  qed
  then show ?thesis by (simp only: r overflow_mono)
qed

lemma round32_of_int:
  assumes "\<bar>m\<bar> < 2 ^ 24"
  shows "round32 (of_int m) = Finite (of_int m)"
proof -
  let ?x = "of_int m :: real"
  have small: "\<bar>?x\<bar> < 2 ^ 24"
    using assms by (metis of_int_abs of_int_less_iff of_int_numeral of_int_power)
  then have x128: "\<bar>?x\<bar> < 2 powi 128"
    by (simp add: order_less_le_trans [where y = "2 ^ 24"])
  have e23: "binade \<bar>?x\<bar> \<le> 23"
  proof (rule ccontr)
    assume "\<not> binade \<bar>?x\<bar> \<le> 23"
    then have big: "24 \<le> binade \<bar>?x\<bar>" by simp
    then have "2 powi (binade \<bar>?x\<bar>) \<le> \<bar>?x\<bar>"
      using binade_spec(4) [OF _ x128] by simp
    moreover have "(2::real) powi 24 \<le> 2 powi (binade \<bar>?x\<bar>)"
      using big by (intro power_int_increasing) simp_all
    ultimately show False using small by simp
  qed
  define k where "k = nat (23 - binade \<bar>?x\<bar>)"
  have k: "binade \<bar>?x\<bar> - 23 = - int k" using e23 by (simp add: k_def)
  have u: "(2::real) powi (binade \<bar>?x\<bar> - 23) = 1 / 2 ^ k"
    by (simp only: k power_int_minus_divide power_int_of_nat)
  have "?x / (1 / 2 ^ k) = of_int (m * 2 ^ k)" by simp
  then have "round_even (?x / (1 / 2 ^ k)) = m * 2 ^ k"
    by (simp only: round_even_of_int)
  then have "nearest32 ?x = ?x"
    by (simp add: nearest32_def Let_def u)
  then show ?thesis
    using x128 by (simp add: round32_def overflow_def)
qed

lemma round32_numeral [simp]:
  "numeral n < (2::int) ^ 24 \<Longrightarrow> round32 (numeral n) = Finite (numeral n)"
  "numeral n < (2::int) ^ 24 \<Longrightarrow> round32 (- numeral n) = Finite (- numeral n)"
  "round32 0 = Finite 0"
  "round32 1 = Finite 1"
  using round32_of_int [of "numeral n"] round32_of_int [of "- numeral n"]
    round32_of_int [of 0] round32_of_int [of 1]
  by simp_all

lemma f32_literals:
  "f32 0 = Finite 0" "f32 5 = Finite 5" "f32 10 = Finite 10" "f32 15 = Finite 15"
  "f32 20 = Finite 20" "f32 24 = Finite 24" "f32 25 = Finite 25" "f32 30 = Finite 30"
  "f32 40 = Finite 40" "f32 50 = Finite 50" "f32 100 = Finite 100" "f32 28 = Finite 28"
  by (simp_all add: f32_def)

lemma f32_5_4: "f32 (27 / 5) = Finite (11324621 / 2097152)"
  by code_simp


lemma flt_NaN [simp]: "flt a NaN = False" "flt NaN b = False"
  by (cases a) simp_all

lemma fle_NaN [simp]: "fle a NaN = False" "fle NaN b = False"
  by (cases a) simp_all

lemma fadd_NaN [simp]: "fadd a NaN = NaN" "fadd NaN b = NaN"
  by (cases a) simp_all

lemma fmul_NaN [simp]: "fmul a NaN = NaN" "fmul NaN b = NaN"
  by (cases a) simp_all

lemma fdiv_NaN [simp]: "fdiv a NaN = NaN" "fdiv NaN b = NaN"
  by (cases a) simp_all

lemma fsub_Finite_not_NaN: "a \<noteq> NaN \<Longrightarrow> fsub a (Finite n) \<noteq> NaN"
  by (cases a) (simp_all add: fsub_def)

lemma fdiv_positive_not_NaN: "a \<noteq> NaN \<Longrightarrow> 0 < c \<Longrightarrow> fdiv a (Finite c) \<noteq> NaN"
  by (cases a) simp_all

lemma fmul_positive_not_NaN: "a \<noteq> NaN \<Longrightarrow> 0 < c \<Longrightarrow> fmul a (Finite c) \<noteq> NaN"
  by (cases a) simp_all

lemma std_clamp_f32_range:
  assumes "v \<noteq> NaN" and "lo \<le> hi"
  shows "fle (Finite lo) (std_clamp_f32 v (Finite lo) (Finite hi))
       \<and> fle (std_clamp_f32 v (Finite lo) (Finite hi)) (Finite hi)"
  using assms by (cases v) (auto simp add: std_clamp_f32_def)

theorem batteryCallback_f32_NaN:
  "battery_soc (energy_state (batteryCallback_f32 NaN s)) = NaN
   \<and> \<not> fle (f32 0) (battery_soc (energy_state (batteryCallback_f32 NaN s)))
   \<and> \<not> fle (battery_soc (energy_state (batteryCallback_f32 NaN s))) (f32 100)
   \<and> emitted (batteryCallback_f32 NaN s) = emitted s @ [SocPublished NaN]"
  by (simp add: batteryCallback_f32_def Let_def fsub_def std_clamp_f32_def)

lemma batteryCallback_f32_range:
  assumes "v \<noteq> NaN"
  shows "fle (f32 0) (battery_soc (energy_state (batteryCallback_f32 v s)))
       \<and> fle (battery_soc (energy_state (batteryCallback_f32 v s))) (f32 100)"
proof -
  let ?raw = "fmul (fdiv (fsub v (Finite 24)) (Finite (11324621 / 2097152))) (Finite 100)"
  have "fsub v (Finite 24) \<noteq> NaN"
    using assms by (rule fsub_Finite_not_NaN)
  then have "fdiv (fsub v (Finite 24)) (Finite (11324621 / 2097152)) \<noteq> NaN"
    by (rule fdiv_positive_not_NaN) simp
  then have c: "?raw \<noteq> NaN"
    by (rule fmul_positive_not_NaN) simp
  have "battery_soc (energy_state (batteryCallback_f32 v s))
      = std_clamp_f32 ?raw (Finite 0) (Finite 100)"
    by (simp add: batteryCallback_f32_def Let_def f32_literals f32_5_4)
  then show ?thesis
    using std_clamp_f32_range [OF c, of 0 100] by (simp add: f32_literals)
qed

lemma fle_MinusInf_left: "b \<noteq> NaN \<Longrightarrow> fle MinusInf b"
  by (cases b) simp_all

lemma fle_PlusInf_right: "a \<noteq> NaN \<Longrightarrow> fle a PlusInf"
  by (cases a) simp_all

lemma fle_round32_infinities [simp]: "fle MinusInf (round32 x)" "fle (round32 x) PlusInf"
  by (simp_all add: fle_MinusInf_left fle_PlusInf_right)

lemma fsub_mono:
  assumes "fle a b"
  shows "fle (fsub a (Finite c)) (fsub b (Finite c))"
proof (cases a)
  case a: (Finite x)
  show ?thesis
  proof (cases b)
    case (Finite y)
    with a assms have "x + - c \<le> y + - c" by simp
    then have "fle (round32 (x + - c)) (round32 (y + - c))" by (rule round32_mono)
    with a Finite show ?thesis by (simp add: fsub_def)
  qed (use a assms in \<open>simp_all add: fsub_def\<close>)
next
  case MinusInf
  with assms show ?thesis by (cases b) (simp_all add: fsub_def)
next
  case PlusInf
  with assms show ?thesis by (cases b) (simp_all add: fsub_def)
qed (use assms in simp)

lemma fdiv_mono:
  assumes "fle a b" and "0 < c"
  shows "fle (fdiv a (Finite c)) (fdiv b (Finite c))"
proof (cases a)
  case a: (Finite x)
  show ?thesis
  proof (cases b)
    case (Finite y)
    with a assms have "x / c \<le> y / c" by (simp add: divide_right_mono)
    then have "fle (round32 (x / c)) (round32 (y / c))" by (rule round32_mono)
    with a Finite assms(2) show ?thesis by simp
  qed (use a assms in simp_all)
next
  case MinusInf
  with assms show ?thesis by (cases b) simp_all
next
  case PlusInf
  with assms show ?thesis by (cases b) simp_all
qed (use assms in simp)

lemma fmul_mono:
  assumes "fle a b" and "0 < c"
  shows "fle (fmul a (Finite c)) (fmul b (Finite c))"
proof (cases a)
  case a: (Finite x)
  show ?thesis
  proof (cases b)
    case (Finite y)
    with a assms have "x * c \<le> y * c" by simp
    then have "fle (round32 (x * c)) (round32 (y * c))" by (rule round32_mono)
    with a Finite show ?thesis by simp
  qed (use a assms in simp_all)
next
  case MinusInf
  with assms show ?thesis by (cases b) simp_all
next
  case PlusInf
  with assms show ?thesis by (cases b) simp_all
qed (use assms in simp)

lemma std_clamp_f32_mono:
  assumes "fle a b" and "lo \<le> hi"
  shows "fle (std_clamp_f32 a (Finite lo) (Finite hi)) (std_clamp_f32 b (Finite lo) (Finite hi))"
  using assms by (cases a; cases b) (auto simp add: std_clamp_f32_def)

lemma batteryCallback_f32_soc:
  "battery_soc (energy_state (batteryCallback_f32 v s))
     = std_clamp_f32 (fmul (fdiv (fsub v (f32 24)) (f32 5.4)) (f32 100)) (f32 0) (f32 100)"
  by (simp add: batteryCallback_f32_def Let_def)

lemma batteryCallback_f32_monotone:
  assumes "fle v w"
  shows "fle (battery_soc (energy_state (batteryCallback_f32 v s)))
             (battery_soc (energy_state (batteryCallback_f32 w s')))"
proof -
  have "fle (fsub v (Finite 24)) (fsub w (Finite 24))"
    using assms by (rule fsub_mono)
  then have "fle (fdiv (fsub v (Finite 24)) (Finite (11324621 / 2097152)))
                 (fdiv (fsub w (Finite 24)) (Finite (11324621 / 2097152)))"
    by (rule fdiv_mono) simp
  then have "fle (fmul (fdiv (fsub v (Finite 24)) (Finite (11324621 / 2097152))) (Finite 100))
                 (fmul (fdiv (fsub w (Finite 24)) (Finite (11324621 / 2097152))) (Finite 100))"
    by (rule fmul_mono) simp
  then have "fle (std_clamp_f32
        (fmul (fdiv (fsub v (Finite 24)) (Finite (11324621 / 2097152))) (Finite 100))
        (Finite 0) (Finite 100))
      (std_clamp_f32
        (fmul (fdiv (fsub w (Finite 24)) (Finite (11324621 / 2097152))) (Finite 100))
        (Finite 0) (Finite 100))"
    by (rule std_clamp_f32_mono) simp
  then show ?thesis
    by (simp add: batteryCallback_f32_soc f32_literals f32_5_4)
qed

theorem decideMode_f32_first_match:
  "(flt (battery_soc (energy_state s)) (f32 15) \<longrightarrow> decideMode_f32 s = EMERGENCY)
   \<and> (\<not> flt (battery_soc (energy_state s)) (f32 15)
        \<and> flt (solar_generation (energy_state s)) (f32 5)
        \<and> flt (battery_soc (energy_state s)) (f32 50)
        \<longrightarrow> decideMode_f32 s = HIBERNATION)
   \<and> (\<not> flt (battery_soc (energy_state s)) (f32 15)
        \<and> \<not> (flt (solar_generation (energy_state s)) (f32 5)
             \<and> flt (battery_soc (energy_state s)) (f32 50))
        \<and> (flt (battery_soc (energy_state s)) (f32 30)
             \<or> flt (fsub (solar_generation (energy_state s)) (power_consumption (energy_state s)))
                  (fneg (f32 10)))
        \<longrightarrow> decideMode_f32 s = LOW_POWER)
   \<and> (\<not> flt (battery_soc (energy_state s)) (f32 15)
        \<and> \<not> (flt (solar_generation (energy_state s)) (f32 5)
             \<and> flt (battery_soc (energy_state s)) (f32 50))
        \<and> \<not> (flt (battery_soc (energy_state s)) (f32 30)
             \<or> flt (fsub (solar_generation (energy_state s)) (power_consumption (energy_state s)))
                  (fneg (f32 10)))
        \<and> flt (f32 40) (battery_soc (energy_state s))
        \<and> flt (f32 0) (fsub (solar_generation (energy_state s)) (power_consumption (energy_state s)))
        \<longrightarrow> decideMode_f32 s = NORMAL)
   \<and> (\<not> flt (battery_soc (energy_state s)) (f32 15)
        \<and> \<not> (flt (solar_generation (energy_state s)) (f32 5)
             \<and> flt (battery_soc (energy_state s)) (f32 50))
        \<and> \<not> (flt (battery_soc (energy_state s)) (f32 30)
             \<or> flt (fsub (solar_generation (energy_state s)) (power_consumption (energy_state s)))
                  (fneg (f32 10)))
        \<and> \<not> (flt (f32 40) (battery_soc (energy_state s))
             \<and> flt (f32 0)
                  (fsub (solar_generation (energy_state s)) (power_consumption (energy_state s))))
        \<longrightarrow> decideMode_f32 s = current_mode s)
   \<and> (energy_state s' = energy_state s \<and> current_mode s' = current_mode s
        \<longrightarrow> decideMode_f32 s' = decideMode_f32 s)"
  by (simp add: decideMode_f32_def determineTargetMode_f32_def Let_def)

lemma energy_sample_f32_simps [simp]:
  "battery_soc (energy_state (energy_sample_f32 soc solar consumption m)) = soc"
  "solar_generation (energy_state (energy_sample_f32 soc solar consumption m)) = solar"
  "power_consumption (energy_state (energy_sample_f32 soc solar consumption m)) = consumption"
  "current_mode (energy_sample_f32 soc solar consumption m) = m"
  by (simp_all add: energy_sample_f32_def initial_manager_f32_def initial_energy_state_f32_def)

theorem decideMode_f32_first_match_witness:
  "decideMode_f32 (energy_sample_f32 (f32 10) (f32 100) (f32 0) NORMAL) = EMERGENCY
   \<and> decideMode_f32 (energy_sample_f32 (f32 45) (f32 3) (f32 0) NORMAL) = HIBERNATION
   \<and> decideMode_f32 (energy_sample_f32 (f32 60) (f32 20) (f32 40) NORMAL) = LOW_POWER
   \<and> decideMode_f32 (energy_sample_f32 (f32 60) (f32 50) (f32 40) LOW_POWER) = NORMAL
   \<and> decideMode_f32 (energy_sample_f32 (f32 35) (f32 20) (f32 25) LOW_POWER) = LOW_POWER
   \<and> fsub (f32 0.1) (f32 10.1) = Finite (- 10)
   \<and> decideMode_f32 (energy_sample_f32 (f32 100) (f32 0.1) (f32 10.1) NORMAL) = NORMAL
   \<and> decideMode_f32 (energy_sample_f32 NaN (f32 20) (f32 25) HIBERNATION) = HIBERNATION
   \<and> decideMode_f32 (predictionLoop_f32 (energy_sample_f32 (f32 35) (f32 20) (f32 25) LOW_POWER))
       = decideMode_f32 (energy_sample_f32 (f32 35) (f32 20) (f32 25) LOW_POWER)"
proof -
  have v: "f32 60 = Finite 60" "f32 45 = Finite 45" "f32 3 = Finite 3" "f32 35 = Finite 35"
    "f32 (1 / 10) = Finite (13421773 / 134217728)" "f32 (101 / 10) = Finite (5295309 / 524288)"
    by code_simp+
  have sub: "fsub (Finite (13421773 / 134217728)) (Finite (5295309 / 524288)) = Finite (- 10)"
    "fsub (Finite 100) (Finite 0) = Finite 100" "fsub (Finite 3) (Finite 0) = Finite 3"
    "fsub (Finite 20) (Finite 40) = Finite (- 20)" "fsub (Finite 50) (Finite 40) = Finite 10"
    "fsub (Finite 20) (Finite 25) = Finite (- 5)"
    by code_simp+
  show ?thesis
    using decideMode_f32_first_match
        [of "energy_sample_f32 (f32 10) (f32 100) (f32 0) NORMAL"
            "energy_sample_f32 (f32 10) (f32 100) (f32 0) NORMAL"]
      decideMode_f32_first_match
        [of "energy_sample_f32 (f32 45) (f32 3) (f32 0) NORMAL"
            "energy_sample_f32 (f32 45) (f32 3) (f32 0) NORMAL"]
      decideMode_f32_first_match
        [of "energy_sample_f32 (f32 60) (f32 20) (f32 40) NORMAL"
            "energy_sample_f32 (f32 60) (f32 20) (f32 40) NORMAL"]
      decideMode_f32_first_match
        [of "energy_sample_f32 (f32 60) (f32 50) (f32 40) LOW_POWER"
            "energy_sample_f32 (f32 60) (f32 50) (f32 40) LOW_POWER"]
      decideMode_f32_first_match
        [of "energy_sample_f32 (f32 35) (f32 20) (f32 25) LOW_POWER"
            "predictionLoop_f32 (energy_sample_f32 (f32 35) (f32 20) (f32 25) LOW_POWER)"]
      decideMode_f32_first_match
        [of "energy_sample_f32 (f32 100) (f32 0.1) (f32 10.1) NORMAL"
            "energy_sample_f32 (f32 100) (f32 0.1) (f32 10.1) NORMAL"]
      decideMode_f32_first_match
        [of "energy_sample_f32 NaN (f32 20) (f32 25) HIBERNATION"
            "energy_sample_f32 NaN (f32 20) (f32 25) HIBERNATION"]
    by (simp add: f32_literals v sub predictionLoop_f32_def)
qed

subsection \<open>Bounds on the assigned power, in binary32\<close>

lemma fle_Finite_0_not_NaN: "fle (Finite 0) a \<Longrightarrow> a \<noteq> NaN"
  by (cases a) simp_all

lemma not_fle_imp_fle: "a \<noteq> NaN \<Longrightarrow> \<not> fle (Finite n) a \<Longrightarrow> fle a (Finite n)"
  by (cases a) simp_all

lemma fsub_nonneg:
  assumes "fle (Finite n) a"
  shows "fle (Finite 0) (fsub a (Finite n))"
proof (cases a)
  case (Finite x)
  with assms have "0 \<le> x + - n" by simp
  then have "fle (Finite 0) (round32 (x + - n))" by (rule round32_nonneg)
  with Finite show ?thesis by (simp add: fsub_def)
qed (use assms in \<open>simp_all add: fsub_def\<close>)

lemma fadd_nonneg:
  assumes "fle (Finite 0) a" and "fle (Finite 0) b"
  shows "fle (Finite 0) (fadd a b)"
proof (cases a)
  case a: (Finite x)
  show ?thesis
  proof (cases b)
    case (Finite y)
    with a assms have "0 \<le> x + y" by simp
    then have "fle (Finite 0) (round32 (x + y))" by (rule round32_nonneg)
    with a Finite show ?thesis by simp
  qed (use a assms in simp_all)
next
  case PlusInf
  with assms(2) show ?thesis by (cases b) simp_all
qed (use assms in simp_all)

lemma fmul_nonneg:
  assumes "0 < k" and "fle (Finite 0) a"
  shows "fle (Finite 0) (fmul (Finite k) a)"
proof (cases a)
  case (Finite x)
  with assms have "0 \<le> k * x" by simp
  then have "fle (Finite 0) (round32 (k * x))" by (rule round32_nonneg)
  with Finite show ?thesis by simp
qed (use assms in simp_all)

lemma to_float_fabs_nonneg:
  assumes "a \<noteq> NaN"
  shows "fle (Finite 0) (to_float (fabs a))"
proof (cases a)
  case (Finite x)
  have "fle (Finite 0) (round32 \<bar>x\<bar>)" by (rule round32_nonneg) simp
  with Finite show ?thesis by simp
qed (use assms in simp_all)

lemma motor_power_nonneg:
  assumes "lx \<noteq> NaN" and "az \<noteq> NaN"
  shows "fle (Finite 0)
    (fadd (fadd (f32 10) (fmul (f32 40) (to_float (fabs lx)))) (fmul (f32 20) (to_float (fabs az))))"
proof -
  have a: "fle (Finite 0) (fmul (Finite 40) (to_float (fabs lx)))"
    by (rule fmul_nonneg) (simp_all add: to_float_fabs_nonneg assms)
  have b: "fle (Finite 0) (fmul (Finite 20) (to_float (fabs az)))"
    by (rule fmul_nonneg) (simp_all add: to_float_fabs_nonneg assms)
  have "fle (Finite 0) (fadd (Finite 10) (fmul (Finite 40) (to_float (fabs lx))))"
    by (rule fadd_nonneg) (simp_all add: a)
  then have "fle (Finite 0)
      (fadd (fadd (Finite 10) (fmul (Finite 40) (to_float (fabs lx))))
            (fmul (Finite 20) (to_float (fabs az))))"
    using b by (rule fadd_nonneg)
  then show ?thesis by (simp only: f32_literals)
qed

lemma initializeComponents_f32_values:
  "initializeComponents_f32 =
    [mk_component ''communication'' CRITICAL (Finite 15) (Finite 15) True True,
     mk_component ''fdir_watchdog'' CRITICAL (Finite 5) (Finite 5) True True,
     mk_component ''navigation'' HIGH (Finite 25) (Finite 25) True True,
     mk_component ''motors'' HIGH (Finite 50) (Finite 0) True True,
     mk_component ''lidar'' MEDIUM (Finite 20) (Finite 20) True False,
     mk_component ''cameras'' MEDIUM (Finite 15) (Finite 15) True False,
     mk_component ''science_instruments'' LOW (Finite 30) (Finite 0) True False,
     mk_component ''heating'' MEDIUM (Finite 40) (Finite 0) True False]"
  by (simp only: initializeComponents_f32_def f32_literals)

lemma catalog_f32_nominal:
  assumes "catalog_registry_f32 comps" and "c \<in> set comps"
  shows "\<exists>n. nominal_power c = Finite n \<and> 0 \<le> n"
proof -
  have "catalog_fields c \<in> set (map catalog_fields comps)" using assms(2) by simp
  then have "catalog_fields c \<in> set (map catalog_fields initializeComponents_f32)"
    using assms(1) by (simp only: catalog_registry_f32_def)
  then show ?thesis
    by (auto simp add: catalog_fields_def initializeComponents_f32_values mk_component_def)
qed

lemma allocation_loop_f32_invariant:
  fixes A :: "ieee \<Rightarrow> bool" and W :: "ieee PowerComponent \<Rightarrow> bool"
  assumes "A avail"
    and "\<forall>p \<in> set ps. p < length comps"
    and "\<forall>i < length comps. \<exists>n. nominal_power (comps ! i) = Finite n \<and> 0 \<le> n"
    and served: "\<And>a n c. A a \<Longrightarrow> 0 \<le> n \<Longrightarrow> nominal_power c = Finite n \<Longrightarrow> fle (Finite n) a
                  \<Longrightarrow> W (c\<lparr>current_power := Finite n\<rparr>) \<and> A (fsub a (Finite n))"
    and short: "\<And>a n c. A a \<Longrightarrow> 0 \<le> n \<Longrightarrow> nominal_power c = Finite n \<Longrightarrow> \<not> fle (Finite n) a
                  \<Longrightarrow> W (c\<lparr>current_power := a\<rparr>)"
    and zero: "A (Finite 0)"
  shows "\<forall>i < length comps. (i \<in> set ps \<or> W (comps ! i))
           \<longrightarrow> W (allocation_loop_f32 ps avail comps ! i)"
  using assms(1-3)
proof (induction ps arbitrary: avail comps)
  case Nil
  then show ?case by simp
next
  case (Cons p ps)
  have p: "p < length comps" using Cons.prems(2) by simp
  obtain n where n: "nominal_power (comps ! p) = Finite n" "0 \<le> n"
    using Cons.prems(3) p by blast
  define v where "v = (if fle (Finite n) avail then Finite n else avail)"
  define avail' where "avail' = (if fle (Finite n) avail then fsub avail (Finite n) else Finite 0)"
  define comps' where "comps' = comps[p := (comps ! p)\<lparr>current_power := v\<rparr>]"
  have unfold: "allocation_loop_f32 (p # ps) avail comps = allocation_loop_f32 ps avail' comps'"
    by (simp add: n v_def avail'_def comps'_def f32_literals)
  have Wp: "W ((comps ! p)\<lparr>current_power := v\<rparr>)" and A': "A avail'"
    using served [OF Cons.prems(1) n(2) n(1)] short [OF Cons.prems(1) n(2) n(1)] zero
    by (auto simp add: v_def avail'_def)
  have len: "length comps' = length comps" by (simp add: comps'_def)
  have ih: "\<forall>i < length comps'. (i \<in> set ps \<or> W (comps' ! i))
           \<longrightarrow> W (allocation_loop_f32 ps avail' comps' ! i)"
  proof (rule Cons.IH [OF A'])
    show "\<forall>q \<in> set ps. q < length comps'" using Cons.prems(2) len by simp
    show "\<forall>i < length comps'. \<exists>n. nominal_power (comps' ! i) = Finite n \<and> 0 \<le> n"
      using Cons.prems(3) len by (simp add: comps'_def nominal_power_pointer_write)
  qed
  show ?case
  proof (intro allI impI)
    fix i assume i: "i < length comps" and h: "i \<in> set (p # ps) \<or> W (comps ! i)"
    have "i \<in> set ps \<or> W (comps' ! i)"
    proof (cases "i = p")
      case True
      with p Wp show ?thesis by (simp add: comps'_def)
    next
      case False
      with h show ?thesis by (auto simp add: comps'_def)
    qed
    with ih i len show "W (allocation_loop_f32 (p # ps) avail comps ! i)"
      by (simp only: unfold)
  qed
qed


lemma allocation_loop_f32_catalog:
  "map catalog_fields (allocation_loop_f32 ps avail comps) = map catalog_fields comps"
proof (induction ps arbitrary: avail comps)
  case Nil
  show ?case by simp
next
  case (Cons p ps)
  have "map catalog_fields (comps[p := (comps ! p)\<lparr>current_power := v\<rparr>])
      = map catalog_fields comps" for v
  proof (cases "p < length comps")
    case True
    then show ?thesis by (simp add: map_update list_update_same_conv catalog_fields_def)
  next
    case False
    then have "length comps \<le> p" by simp
    then show ?thesis by (simp only: list_update_beyond)
  qed
  with Cons.IH show ?case by simp
qed

lemma length_allocation_loop_f32: "length (allocation_loop_f32 ps avail comps) = length comps"
  by (induction ps arbitrary: avail comps) simp_all

lemma allocation_loop_f32_is_enabled:
  "is_enabled (allocation_loop_f32 ps avail comps ! i) = is_enabled (comps ! i)"
  by (induction ps arbitrary: avail comps) (simp_all add: is_enabled_pointer_write)

lemma set_motor_power_catalog:
  "map catalog_fields (set_motor_power v comps) = map catalog_fields comps"
  by (induction comps) (simp_all add: catalog_fields_def)

lemma set_motor_power_below_nominal:
  assumes "\<forall>c \<in> set comps. below_nominal c"
  shows "\<forall>c \<in> set (set_motor_power v comps). below_nominal c"
  using assms by (induction comps) (auto simp add: below_nominal_def)

lemma set_motor_power_nonneg:
  assumes "fle (Finite 0) v" and "\<forall>c \<in> set comps. fle (Finite 0) (current_power c)"
  shows "\<forall>c \<in> set (set_motor_power v comps). fle (Finite 0) (current_power c)"
  using assms by (induction comps) auto

lemma adjust_component_power:
  "current_power (adjust_component m c) = current_power c"
  "nominal_power (adjust_component m c) = nominal_power c"
  "name (adjust_component m c) = name c"
  by (cases m; simp add: Let_def)+

lemma solar_generation_pre_allocation_f32:
  "solar_generation (energy_state (pre_allocation_f32 s)) = solar_generation (energy_state s)"
  by (simp add: pre_allocation_f32_def Let_def switchMode_def updatePowerConsumption_f32_def)

lemma catalog_registry_f32_adjust:
  "catalog_registry_f32 (adjustComponentsForMode m comps) = catalog_registry_f32 comps"
  by (simp add: catalog_registry_f32_def adjustComponentsForMode_def catalog_fields_adjust comp_def)

lemma upper_inv_switchMode:
  assumes "upper_inv s"
  shows "upper_inv (switchMode m s)"
proof -
  have w: "\<forall>c \<in> set (adjustComponentsForMode m (components s)). below_nominal c"
    using assms
    by (simp add: upper_inv_def adjustComponentsForMode_def below_nominal_def adjust_component_power)
  show ?thesis
    using assms w by (simp add: upper_inv_def switchMode_def catalog_registry_f32_adjust)
qed

lemma lower_inv_switchMode:
  assumes "lower_inv s"
  shows "lower_inv (switchMode m s)"
proof -
  have w: "\<forall>c \<in> set (adjustComponentsForMode m (components s)). fle (Finite 0) (current_power c)"
    using assms by (simp add: lower_inv_def adjustComponentsForMode_def adjust_component_power)
  show ?thesis
    using assms w by (simp add: lower_inv_def switchMode_def catalog_registry_f32_adjust)
qed

lemma upper_inv_pre_allocation:
  assumes "upper_inv s"
  shows "upper_inv (pre_allocation_f32 s)"
proof -
  have "upper_inv (updatePowerConsumption_f32 s)"
    using assms by (simp add: upper_inv_def updatePowerConsumption_f32_def)
  then show ?thesis
    by (simp add: pre_allocation_f32_def Let_def upper_inv_switchMode)
qed

lemma lower_inv_pre_allocation:
  assumes "lower_inv s"
  shows "lower_inv (pre_allocation_f32 s)"
proof -
  have "lower_inv (updatePowerConsumption_f32 s)"
    using assms by (simp add: lower_inv_def updatePowerConsumption_f32_def)
  then show ?thesis
    by (simp add: pre_allocation_f32_def Let_def lower_inv_switchMode)
qed

lemma catalog_f32_nominal_index:
  assumes "catalog_registry_f32 comps"
  shows "\<forall>i < length comps. \<exists>n. nominal_power (comps ! i) = Finite n \<and> 0 \<le> n"
  using catalog_f32_nominal [OF assms] by simp

lemma upper_inv_allocatePower:
  assumes inv: "upper_inv s"
    and srt: "std_sort_result (components s) (enabled_pointers (components s)) ord"
  shows "upper_inv (allocatePower_f32 ord s)"
proof -
  let ?comps = "components s"
  let ?b = "solar_generation (energy_state s)"
  let ?res = "allocation_loop_f32 ord ?b ?comps"
  have cat: "catalog_registry_f32 ?comps" and b: "?b \<noteq> NaN"
    and w: "\<forall>c \<in> set ?comps. below_nominal c"
    using inv by (simp_all add: upper_inv_def)
  have r: "\<forall>p \<in> set ord. p < length ?comps"
    using std_sort_result_set [OF srt] by simp
  have "\<forall>i < length ?comps. (i \<in> set ord \<or> below_nominal (?comps ! i))
          \<longrightarrow> below_nominal (?res ! i)"
  proof (rule allocation_loop_f32_invariant [where A = "\<lambda>a. a \<noteq> NaN"])
    show "?b \<noteq> NaN" by (rule b)
    show "\<forall>p \<in> set ord. p < length ?comps" by (rule r)
    show "\<forall>i < length ?comps. \<exists>n. nominal_power (?comps ! i) = Finite n \<and> 0 \<le> n"
      using cat by (rule catalog_f32_nominal_index)
    show "below_nominal (c\<lparr>current_power := Finite n\<rparr>) \<and> fsub a (Finite n) \<noteq> NaN"
      if "a \<noteq> NaN" "nominal_power c = Finite n" for a n c
      using that by (simp add: below_nominal_def fsub_Finite_not_NaN)
    show "below_nominal (c\<lparr>current_power := a\<rparr>)"
      if "a \<noteq> NaN" "nominal_power c = Finite n" "\<not> fle (Finite n) a" for a n c
      using that by (simp add: below_nominal_def not_fle_imp_fle)
    show "Finite 0 \<noteq> NaN" by simp
  qed
  then have "\<forall>i < length ?res. below_nominal (?res ! i)"
    using w by (simp add: length_allocation_loop_f32)
  then have "\<forall>c \<in> set ?res. below_nominal c"
    by (simp only: all_set_conv_all_nth)
  moreover have "catalog_registry_f32 ?res"
    using cat by (simp add: catalog_registry_f32_def allocation_loop_f32_catalog)
  ultimately show ?thesis
    using b by (simp add: upper_inv_def allocatePower_f32_def)
qed

lemma lower_inv_allocatePower:
  assumes inv: "lower_inv s"
    and srt: "std_sort_result (components s) (enabled_pointers (components s)) ord"
  shows "lower_inv (allocatePower_f32 ord s)"
proof -
  let ?comps = "components s"
  let ?b = "solar_generation (energy_state s)"
  let ?res = "allocation_loop_f32 ord ?b ?comps"
  have cat: "catalog_registry_f32 ?comps" and b: "fle (Finite 0) ?b"
    and w: "\<forall>c \<in> set ?comps. fle (Finite 0) (current_power c)"
    using inv by (simp_all add: lower_inv_def)
  have r: "\<forall>p \<in> set ord. p < length ?comps"
    using std_sort_result_set [OF srt] by simp
  have "\<forall>i < length ?comps. (i \<in> set ord \<or> fle (Finite 0) (current_power (?comps ! i)))
          \<longrightarrow> fle (Finite 0) (current_power (?res ! i))"
  proof (rule allocation_loop_f32_invariant
      [where A = "\<lambda>a. fle (Finite 0) a" and W = "\<lambda>c. fle (Finite 0) (current_power c)"])
    show "fle (Finite 0) ?b" by (rule b)
    show "\<forall>p \<in> set ord. p < length ?comps" by (rule r)
    show "\<forall>i < length ?comps. \<exists>n. nominal_power (?comps ! i) = Finite n \<and> 0 \<le> n"
      using cat by (rule catalog_f32_nominal_index)
    show "fle (Finite 0) (current_power (c\<lparr>current_power := Finite n\<rparr>))
        \<and> fle (Finite 0) (fsub a (Finite n))"
      if "0 \<le> n" "fle (Finite n) a" for a n and c :: "ieee PowerComponent"
      using that by (simp add: fsub_nonneg)
    show "fle (Finite 0) (current_power (c\<lparr>current_power := a\<rparr>))"
      if "fle (Finite 0) a" for a and c :: "ieee PowerComponent"
      using that by simp
    show "fle (Finite 0) (Finite 0)" by simp
  qed
  then have "\<forall>i < length ?res. fle (Finite 0) (current_power (?res ! i))"
    using w by (simp add: length_allocation_loop_f32)
  then have "\<forall>c \<in> set ?res. fle (Finite 0) (current_power c)"
    by (simp only: all_set_conv_all_nth)
  moreover have "catalog_registry_f32 ?res"
    using cat by (simp add: catalog_registry_f32_def allocation_loop_f32_catalog)
  ultimately show ?thesis
    using b by (simp add: lower_inv_def allocatePower_f32_def)
qed

lemma upper_inv_step:
  assumes inv: "upper_inv s" and adm: "admissible_f32 c s" and sol: "solar_is_number c"
  shows "upper_inv (step_f32 c s)"
proof (cases c)
  case (BatteryMessage v)
  with inv show ?thesis by (simp add: upper_inv_def batteryCallback_f32_def Let_def)
next
  case (SolarMessage w)
  with inv sol show ?thesis by (simp add: upper_inv_def solarCallback_def)
next
  case (TwistMessage lx az)
  have "\<forall>c \<in> set (set_motor_power v (components s)). below_nominal c" for v
    using inv by (intro set_motor_power_below_nominal) (simp add: upper_inv_def)
  with inv show ?thesis
    by (simp add: TwistMessage upper_inv_def velocityCallback_f32_def Let_def
        catalog_registry_f32_def set_motor_power_catalog)
next
  case (ManagementTimer ord)
  have "upper_inv (allocatePower_f32 ord (pre_allocation_f32 s))"
    using upper_inv_pre_allocation [OF inv] adm
    by (intro upper_inv_allocatePower) (simp_all add: ManagementTimer)
  then show ?thesis
    by (simp add: ManagementTimer managementLoop_f32_def Let_def upper_inv_def)
next
  case PredictionTimer
  with inv show ?thesis by (simp add: upper_inv_def predictionLoop_f32_def)
next
  case (SetModeCall m)
  with inv show ?thesis by (simp add: setMode_def upper_inv_switchMode)
qed

lemma lower_inv_step:
  assumes inv: "lower_inv s" and adm: "admissible_f32 c s"
    and sol: "solar_nonnegative c" and tw: "twist_is_number c"
  shows "lower_inv (step_f32 c s)"
proof (cases c)
  case (BatteryMessage v)
  with inv show ?thesis by (simp add: lower_inv_def batteryCallback_f32_def Let_def)
next
  case (SolarMessage w)
  with inv sol show ?thesis by (simp add: lower_inv_def solarCallback_def)
next
  case (TwistMessage lx az)
  have "fle (Finite 0)
    (fadd (fadd (f32 10) (fmul (f32 40) (to_float (fabs lx)))) (fmul (f32 20) (to_float (fabs az))))"
    using tw by (intro motor_power_nonneg) (simp_all add: TwistMessage)
  then have "\<forall>c \<in> set (set_motor_power
      (fadd (fadd (f32 10) (fmul (f32 40) (to_float (fabs lx)))) (fmul (f32 20) (to_float (fabs az))))
      (components s)). fle (Finite 0) (current_power c)"
    using inv by (intro set_motor_power_nonneg) (simp_all add: lower_inv_def)
  with inv show ?thesis
    by (simp add: TwistMessage lower_inv_def velocityCallback_f32_def Let_def
        catalog_registry_f32_def set_motor_power_catalog)
next
  case (ManagementTimer ord)
  have "lower_inv (allocatePower_f32 ord (pre_allocation_f32 s))"
    using lower_inv_pre_allocation [OF inv] adm
    by (intro lower_inv_allocatePower) (simp_all add: ManagementTimer)
  then show ?thesis
    by (simp add: ManagementTimer managementLoop_f32_def Let_def lower_inv_def)
next
  case PredictionTimer
  with inv show ?thesis by (simp add: lower_inv_def predictionLoop_f32_def)
next
  case (SetModeCall m)
  with inv show ?thesis by (simp add: setMode_def lower_inv_switchMode)
qed

lemma upper_inv_run:
  assumes "upper_inv s" and "admissible_run_f32 cs s" and "\<forall>c \<in> set cs. solar_is_number c"
  shows "upper_inv (run_f32 cs s)"
  using assms by (induction cs arbitrary: s) (simp_all add: upper_inv_step)

lemma lower_inv_run:
  assumes "lower_inv s" and "admissible_run_f32 cs s"
    and "\<forall>c \<in> set cs. solar_nonnegative c \<and> twist_is_number c"
  shows "lower_inv (run_f32 cs s)"
  using assms by (induction cs arbitrary: s) (simp_all add: lower_inv_step)

lemma upper_inv_initial: "upper_inv initial_manager_f32"
  by (simp add: upper_inv_def catalog_registry_f32_def initial_manager_f32_def
      initial_energy_state_f32_def f32_literals initializeComponents_f32_values
      mk_component_def below_nominal_def)

lemma lower_inv_initial: "lower_inv initial_manager_f32"
  by (simp add: lower_inv_def catalog_registry_f32_def initial_manager_f32_def
      initial_energy_state_f32_def f32_literals initializeComponents_f32_values
      mk_component_def)

lemma enabled_after_tick_f32:
  assumes inv: "lower_inv s" and adm: "admissible_f32 (ManagementTimer ord) s"
  shows "\<forall>c \<in> set (components (managementLoop_f32 ord s)).
           is_enabled c \<longrightarrow> fle (Finite 0) (current_power c)
                            \<and> fle (current_power c) (nominal_power c)"
proof -
  let ?comps = "components (pre_allocation_f32 s)"
  let ?b = "solar_generation (energy_state (pre_allocation_f32 s))"
  let ?res = "allocation_loop_f32 ord ?b ?comps"
  let ?Q = "\<lambda>c. fle (Finite 0) (current_power c) \<and> fle (current_power c) (nominal_power c)"
  have res: "components (managementLoop_f32 ord s) = ?res"
    by (simp add: managementLoop_f32_def Let_def allocatePower_f32_def)
  have srt: "std_sort_result ?comps (enabled_pointers ?comps) ord" using adm by simp
  have pinv: "lower_inv (pre_allocation_f32 s)" using inv by (rule lower_inv_pre_allocation)
  have cat: "catalog_registry_f32 ?comps" and b: "fle (Finite 0) ?b"
    using pinv by (simp_all add: lower_inv_def)
  have st: "set ord = {i. i < length ?comps \<and> is_enabled (?comps ! i)}"
    using srt by (rule std_sort_result_set)
  have r: "\<forall>p \<in> set ord. p < length ?comps" using st by simp
  have loop: "\<forall>i < length ?comps. (i \<in> set ord \<or> ?Q (?comps ! i)) \<longrightarrow> ?Q (?res ! i)"
  proof (rule allocation_loop_f32_invariant [where A = "\<lambda>a. fle (Finite 0) a" and W = ?Q])
    show "fle (Finite 0) ?b" by (rule b)
    show "\<forall>p \<in> set ord. p < length ?comps" by (rule r)
    show "\<forall>i < length ?comps. \<exists>n. nominal_power (?comps ! i) = Finite n \<and> 0 \<le> n"
      using cat by (rule catalog_f32_nominal_index)
    show "?Q (c\<lparr>current_power := Finite n\<rparr>) \<and> fle (Finite 0) (fsub a (Finite n))"
      if "0 \<le> n" "nominal_power c = Finite n" "fle (Finite n) a" for a n c
      using that by (simp add: fsub_nonneg)
    show "?Q (c\<lparr>current_power := a\<rparr>)"
      if "fle (Finite 0) a" "nominal_power c = Finite n" "\<not> fle (Finite n) a" for a n c
      using that by (simp add: not_fle_imp_fle fle_Finite_0_not_NaN)
    show "fle (Finite 0) (Finite 0)" by simp
  qed
  have "\<forall>i < length ?res. is_enabled (?res ! i) \<longrightarrow> ?Q (?res ! i)"
  proof (intro allI impI)
    fix i assume i: "i < length ?res" and en: "is_enabled (?res ! i)"
    have il: "i < length ?comps" using i by (simp only: length_allocation_loop_f32)
    moreover have "is_enabled (?comps ! i)"
      using en by (simp only: allocation_loop_f32_is_enabled)
    ultimately have "i \<in> set ord" using st by simp
    with loop il show "?Q (?res ! i)" by blast
  qed
  then have "\<forall>c \<in> set ?res. is_enabled c \<longrightarrow> ?Q c"
    by (simp only: all_set_conv_all_nth)
  then show ?thesis by (simp only: res)
qed

lemma initial_manager_f32_values:
  "initial_manager_f32 =
     \<lparr>current_mode = NORMAL,
      energy_state = \<lparr>battery_soc = Finite 100, voltage = Finite 28, current = Finite 0,
        power_consumption = Finite 0, solar_generation = Finite 0, temperature = Finite 20,
        mode = NORMAL\<rparr>,
      components =
        [mk_component ''communication'' CRITICAL (Finite 15) (Finite 15) True True,
         mk_component ''fdir_watchdog'' CRITICAL (Finite 5) (Finite 5) True True,
         mk_component ''navigation'' HIGH (Finite 25) (Finite 25) True True,
         mk_component ''motors'' HIGH (Finite 50) (Finite 0) True True,
         mk_component ''lidar'' MEDIUM (Finite 20) (Finite 20) True False,
         mk_component ''cameras'' MEDIUM (Finite 15) (Finite 15) True False,
         mk_component ''science_instruments'' LOW (Finite 30) (Finite 0) True False,
         mk_component ''heating'' MEDIUM (Finite 40) (Finite 0) True False],
      emitted = []\<rparr>"
  by (simp add: initial_manager_f32_def initial_energy_state_f32_def
      initializeComponents_f32_values f32_literals)

lemma upt_8: "[0..<8] = [0, 1, 2, 3, 4, 5, 6, 7]"
  by (simp add: upt_rec)

text \<open>The equations that evaluate a run from the constructed binary32 manager.\<close>

lemmas f32_eval =
  initial_manager_f32_values mk_component_def f32_literals Let_def
  velocityCallback_f32_def solarCallback_def batteryCallback_f32_def
  managementLoop_f32_def allocatePower_f32_def pre_allocation_f32_def
  updatePowerConsumption_f32_def decideMode_f32_def determineTargetMode_f32_def
  switchMode_def adjustComponentsForMode_def setMode_def fsub_def
  getAvailablePower_f32_def getCriticalPowerConsumption_f32_def std_max_f32_def

lemmas walk_eval =
  std_sort_result_def enabled_pointers_def priority_less_def upt_8 eval_nat_numeral

text \<open>
  C1. As stated (every component always has \<open>0 \<le> current_power \<le> nominal_power\<close>) the
  property fails. The motion-command callback writes \<open>10 + 40|x| + 20|z|\<close> to the motors
  component without comparing it with the nominal power: a command with linear speed 2
  leaves motors at 90 against a nominal 50, and a command whose speed is NaN leaves it at
  NaN. The solar callback stores any sample, and the allocator hands the budget it cannot
  compare to the first component it walks: after a sample of -5 and a tick communication
  is at -5, and after a sample of NaN and a tick it is at NaN.
\<close>

theorem current_power_f32_counterexample:
  "map name (components (run_f32 [TwistMessage (Finite 2) (Finite 0)] initial_manager_f32))
     = [''communication'', ''fdir_watchdog'', ''navigation'', ''motors'', ''lidar'', ''cameras'',
        ''science_instruments'', ''heating'']
   \<and> map current_power (components
        (run_f32 [TwistMessage (Finite 2) (Finite 0)] initial_manager_f32))
     = [Finite 15, Finite 5, Finite 25, Finite 90, Finite 20, Finite 15, Finite 0, Finite 0]
   \<and> map nominal_power (components
        (run_f32 [TwistMessage (Finite 2) (Finite 0)] initial_manager_f32))
     = [Finite 15, Finite 5, Finite 25, Finite 50, Finite 20, Finite 15, Finite 30, Finite 40]
   \<and> \<not> fle (Finite 90) (Finite 50)
   \<and> map current_power (components
        (run_f32 [TwistMessage NaN (Finite 0)] initial_manager_f32))
     = [Finite 15, Finite 5, Finite 25, NaN, Finite 20, Finite 15, Finite 0, Finite 0]
   \<and> \<not> fle (Finite 0) NaN
   \<and> admissible_run_f32 [SolarMessage (Finite (- 5)), ManagementTimer [0, 1, 2, 3, 4, 7]]
        initial_manager_f32
   \<and> map current_power (components (run_f32
        [SolarMessage (Finite (- 5)), ManagementTimer [0, 1, 2, 3, 4, 7]] initial_manager_f32))
     = [Finite (- 5), Finite 0, Finite 0, Finite 0, Finite 0, Finite 15, Finite 0, Finite 0]
   \<and> \<not> fle (Finite 0) (Finite (- 5))
   \<and> admissible_run_f32 [SolarMessage NaN, ManagementTimer [0, 1, 2, 3, 4, 5, 7, 6]]
        initial_manager_f32
   \<and> map current_power (components (run_f32
        [SolarMessage NaN, ManagementTimer [0, 1, 2, 3, 4, 5, 7, 6]] initial_manager_f32))
     = [NaN, Finite 0, Finite 0, Finite 0, Finite 0, Finite 0, Finite 0, Finite 0]
   \<and> \<not> fle NaN (Finite 15)"
  by (simp add: f32_eval walk_eval)

text \<open>
  C1, amended. Take any state reached from the constructed manager by telemetry
  callbacks, management ticks (whatever order \<open>std::sort\<close> yields), prediction ticks and
  mode changes. If no solar sample was NaN, every component other than motors has
  \<open>current_power \<le> nominal_power\<close>. If every solar sample was at least 0 and no field of a
  motion command was NaN, every component has \<open>0 \<le> current_power\<close>, and the allocator's
  assignment puts every enabled component, motors included, within
  \<open>[0, nominal_power]\<close>: that holds of every enabled component at the end of a management
  tick run from such a state.
\<close>

theorem current_power_bounds_f32:
  assumes adm: "admissible_run_f32 cs initial_manager_f32"
  shows "((\<forall>c \<in> set cs. solar_is_number c)
          \<longrightarrow> (\<forall>x \<in> set (components (run_f32 cs initial_manager_f32)).
                 name x \<noteq> ''motors'' \<longrightarrow> fle (current_power x) (nominal_power x)))
     \<and> ((\<forall>c \<in> set cs. solar_nonnegative c \<and> twist_is_number c)
          \<longrightarrow> (\<forall>x \<in> set (components (run_f32 cs initial_manager_f32)).
                 fle (Finite 0) (current_power x))
            \<and> (\<forall>ord. admissible_f32 (ManagementTimer ord) (run_f32 cs initial_manager_f32)
                 \<longrightarrow> (\<forall>x \<in> set (components
                          (managementLoop_f32 ord (run_f32 cs initial_manager_f32))).
                        is_enabled x \<longrightarrow> fle (Finite 0) (current_power x)
                                        \<and> fle (current_power x) (nominal_power x))))"
proof (intro conjI impI)
  assume "\<forall>c \<in> set cs. solar_is_number c"
  with upper_inv_initial adm have "upper_inv (run_f32 cs initial_manager_f32)"
    by (rule upper_inv_run)
  then show "\<forall>x \<in> set (components (run_f32 cs initial_manager_f32)).
                 name x \<noteq> ''motors'' \<longrightarrow> fle (current_power x) (nominal_power x)"
    by (simp add: upper_inv_def below_nominal_def)
next
  assume "\<forall>c \<in> set cs. solar_nonnegative c \<and> twist_is_number c"
  with lower_inv_initial adm have inv: "lower_inv (run_f32 cs initial_manager_f32)"
    by (rule lower_inv_run)
  then show "\<forall>x \<in> set (components (run_f32 cs initial_manager_f32)).
                 fle (Finite 0) (current_power x)"
    by (simp add: lower_inv_def)
  show "\<forall>ord. admissible_f32 (ManagementTimer ord) (run_f32 cs initial_manager_f32)
                 \<longrightarrow> (\<forall>x \<in> set (components
                          (managementLoop_f32 ord (run_f32 cs initial_manager_f32))).
                        is_enabled x \<longrightarrow> fle (Finite 0) (current_power x)
                                        \<and> fle (current_power x) (nominal_power x))"
    using enabled_after_tick_f32 [OF inv] by blast
qed

theorem current_power_bounds_f32_witness:
  "admissible_run_f32 [TwistMessage (Finite 2) (Finite 0), SolarMessage (Finite 60)]
     initial_manager_f32
   \<and> list_all solar_is_number [TwistMessage (Finite 2) (Finite 0), SolarMessage (Finite 60)]
   \<and> list_all (\<lambda>c. solar_nonnegative c \<and> twist_is_number c)
        [TwistMessage (Finite 2) (Finite 0), SolarMessage (Finite 60)]
   \<and> admissible_f32 (ManagementTimer [0, 1, 2, 3, 4, 7])
        (run_f32 [TwistMessage (Finite 2) (Finite 0), SolarMessage (Finite 60)] initial_manager_f32)
   \<and> map current_power (components
        (run_f32 [TwistMessage (Finite 2) (Finite 0), SolarMessage (Finite 60)] initial_manager_f32))
       = [Finite 15, Finite 5, Finite 25, Finite 90, Finite 20, Finite 15, Finite 0, Finite 0]
   \<and> map current_power (components (managementLoop_f32 [0, 1, 2, 3, 4, 7]
        (run_f32 [TwistMessage (Finite 2) (Finite 0), SolarMessage (Finite 60)]
           initial_manager_f32)))
       = [Finite 15, Finite 5, Finite 25, Finite 15, Finite 0, Finite 15, Finite 0, Finite 0]
   \<and> list_all (\<lambda>x. name x \<noteq> ''motors'' \<longrightarrow> fle (current_power x) (nominal_power x))
        (components (run_f32 [TwistMessage (Finite 2) (Finite 0), SolarMessage (Finite 60)]
           initial_manager_f32))
   \<and> list_all (\<lambda>x. is_enabled x \<longrightarrow> fle (Finite 0) (current_power x)
                                     \<and> fle (current_power x) (nominal_power x))
        (components (managementLoop_f32 [0, 1, 2, 3, 4, 7]
          (run_f32 [TwistMessage (Finite 2) (Finite 0), SolarMessage (Finite 60)]
             initial_manager_f32)))"
proof -
  let ?cs = "[TwistMessage (Finite 2) (Finite 0), SolarMessage (Finite 60)]"
  let ?s = "run_f32 ?cs initial_manager_f32"
  have h1: "admissible_run_f32 ?cs initial_manager_f32" by simp
  have h2: "\<forall>c \<in> set ?cs. solar_is_number c" by simp
  have h3: "\<forall>c \<in> set ?cs. solar_nonnegative c \<and> twist_is_number c" by simp
  have h4: "admissible_f32 (ManagementTimer [0, 1, 2, 3, 4, 7]) ?s"
    by (simp add: f32_eval walk_eval)
  have v1: "map current_power (components ?s)
       = [Finite 15, Finite 5, Finite 25, Finite 90, Finite 20, Finite 15, Finite 0, Finite 0]"
    by (simp add: f32_eval)
  have v2: "map current_power (components (managementLoop_f32 [0, 1, 2, 3, 4, 7] ?s))
       = [Finite 15, Finite 5, Finite 25, Finite 15, Finite 0, Finite 15, Finite 0, Finite 0]"
    by (simp add: f32_eval)
  from current_power_bounds_f32 [OF h1] h2
  have c1: "\<forall>x \<in> set (components ?s).
      name x \<noteq> ''motors'' \<longrightarrow> fle (current_power x) (nominal_power x)"
    by blast
  from current_power_bounds_f32 [OF h1] h3 h4
  have c2: "\<forall>x \<in> set (components (managementLoop_f32 [0, 1, 2, 3, 4, 7] ?s)).
      is_enabled x \<longrightarrow> fle (Finite 0) (current_power x)
                     \<and> fle (current_power x) (nominal_power x)"
    by blast
  show ?thesis
    using h1 h2 h3 h4 v1 v2 c1 c2 by (simp only: list_all_iff)
qed

end